theory Spec2Isabelle
  imports Main "HOL-Library.Word"
begin

unbundle bit_operations_syntax

section \<open>The casync archive encoder (caencoder.c)\<close>

text \<open>
  A shallow embedding of \<^verbatim>\<open>src/caencoder.c\<close> and of \<^verbatim>\<open>timespec_to_nsec\<close> and
  \<^verbatim>\<open>safe_close\<close> from \<^verbatim>\<open>src/util.h\<close>. Fixed-width C integers are machine words, \<^verbatim>\<open>size_t\<close> indices and
  lengths are naturals (the buffer size that the readlink loop doubles is a 64-bit
  word), the encoder object is a record that every operation takes and
  returns, and the operating system is a record of system calls over an abstract world
  \<open>'w\<close> that every call takes and returns. A negative return code is \<open>Inl\<close> of an
  \<open>error\<close>; a non-negative one is \<open>Inr\<close>. Pointer arguments are non-null values, so the
  \<^verbatim>\<open>if (!e) return -EINVAL\<close> guards have no counterpart.
\<close>

subsection \<open>Machine types and error codes\<close>

type_synonym byte = "8 word"
type_synonym u32 = "32 word"
type_synonym u64 = "64 word"

text \<open>
  The negated \<^verbatim>\<open>errno\<close> values the encoder returns or tests. \<open>ERRNO n\<close> is an error
  reported by a system call (\<^verbatim>\<open>-errno\<close>) that has no constructor of its own.
  \<open>ABORT\<close> is not a return code: it stands for the process being killed by a failed
  \<^verbatim>\<open>assert\<close> or \<^verbatim>\<open>assert_se\<close>, or for undefined behaviour (integer division by
  zero, \<^verbatim>\<open>strlen(NULL)\<close>).
\<close>

datatype error =
    EINVAL | EOPNOTSUPP | EBUSY | ENOTTY | EUNATCH | ENOTDIR | EBADFD | E2BIG
  | ENOMEM | EIO | EILSEQ | EPROTONOSUPPORT | EISDIR | EBADF | ERRNO nat | ABORT

text \<open>The non-negative results of \<^verbatim>\<open>ca_encoder_step\<close>.\<close>

datatype step_result = CA_ENCODER_FINISHED | CA_ENCODER_NEXT_FILE | CA_ENCODER_DATA

subsection \<open>Constants of the absent headers caformat.h and def.h\<close>

text \<open>
  The values of the feature flags, of the record type tags and of the two limits are not
  part of the two source files; the encoder is parametrised by them.
\<close>

record CaFormat =
  CA_FORMAT_FEATURE_FLAGS_MAX :: u64
  CA_FORMAT_WITH_BEST :: u64
  CA_FORMAT_WITH_UID_GID_16BIT :: u64
  CA_FORMAT_WITH_UID_GID_32BIT :: u64
  CA_FORMAT_WITH_TIMES_NSEC :: u64
  CA_FORMAT_WITH_TIMES_USEC :: u64
  CA_FORMAT_WITH_TIMES_SEC :: u64
  CA_FORMAT_WITH_TIMES_2SEC :: u64
  CA_FORMAT_WITH_PERMISSIONS :: u64
  CA_FORMAT_WITH_READONLY :: u64
  CA_FORMAT_WITH_SYMLINKS :: u64
  CA_FORMAT_WITH_DEVICE_NODES :: u64
  CA_FORMAT_WITH_FIFOS :: u64
  CA_FORMAT_WITH_SOCKETS :: u64
  CA_FORMAT_HELLO :: u64
  CA_FORMAT_HELLO_UUID_PART2 :: u64
  CA_FORMAT_ENTRY :: u64
  CA_FORMAT_SYMLINK :: u64
  CA_FORMAT_DEVICE :: u64
  CA_FORMAT_PAYLOAD :: u64
  CA_FORMAT_GOODBYE :: u64
  NODES_MAX :: nat
  BUFFER_SIZE :: u64

subsection \<open>File modes (sys/stat.h, Linux)\<close>

definition S_IFMT :: u32 where "S_IFMT = 0xF000"
definition S_IFSOCK :: u32 where "S_IFSOCK = 0xC000"
definition S_IFLNK :: u32 where "S_IFLNK = 0xA000"
definition S_IFREG :: u32 where "S_IFREG = 0x8000"
definition S_IFBLK :: u32 where "S_IFBLK = 0x6000"
definition S_IFDIR :: u32 where "S_IFDIR = 0x4000"
definition S_IFCHR :: u32 where "S_IFCHR = 0x2000"
definition S_IFIFO :: u32 where "S_IFIFO = 0x1000"

definition S_ISSOCK :: "u32 \<Rightarrow> bool" where "S_ISSOCK m \<longleftrightarrow> m AND S_IFMT = S_IFSOCK"
definition S_ISLNK :: "u32 \<Rightarrow> bool" where "S_ISLNK m \<longleftrightarrow> m AND S_IFMT = S_IFLNK"
definition S_ISREG :: "u32 \<Rightarrow> bool" where "S_ISREG m \<longleftrightarrow> m AND S_IFMT = S_IFREG"
definition S_ISBLK :: "u32 \<Rightarrow> bool" where "S_ISBLK m \<longleftrightarrow> m AND S_IFMT = S_IFBLK"
definition S_ISDIR :: "u32 \<Rightarrow> bool" where "S_ISDIR m \<longleftrightarrow> m AND S_IFMT = S_IFDIR"
definition S_ISCHR :: "u32 \<Rightarrow> bool" where "S_ISCHR m \<longleftrightarrow> m AND S_IFMT = S_IFCHR"
definition S_ISFIFO :: "u32 \<Rightarrow> bool" where "S_ISFIFO m \<longleftrightarrow> m AND S_IFMT = S_IFIFO"

subsection \<open>Data model\<close>

text \<open>
  \<^verbatim>\<open>struct stat\<close>, the fields the encoder reads. \<^verbatim>\<open>st_size\<close> (a signed
  \<^verbatim>\<open>off_t\<close>) and the two fields of \<^verbatim>\<open>st_mtim\<close> are kept as the 64-bit patterns the
  code converts them to.
\<close>

record struct_stat =
  st_mode :: u32
  st_size :: u64
  st_uid :: u32
  st_gid :: u32
  st_mtim_sec :: u64
  st_mtim_nsec :: u64
  st_rdev :: u64

definition zero_stat :: struct_stat where
  "zero_stat = \<lparr>st_mode = 0, st_size = 0, st_uid = 0, st_gid = 0,
                 st_mtim_sec = 0, st_mtim_nsec = 0, st_rdev = 0\<rparr>"

text \<open>
  \<^verbatim>\<open>struct dirent\<close>: the name is the content of the C string (the bytes before the
  terminating NUL), the type is the \<^verbatim>\<open>d_type\<close> byte.
\<close>

record dirent =
  d_name :: "byte list"
  d_type :: byte

definition DT_DIR :: byte where "DT_DIR = 4"
definition DT_REG :: byte where "DT_REG = 8"

text \<open>
  \<^verbatim>\<open>CaEncoderNode\<close>. A null \<^verbatim>\<open>dirents\<close> or \<^verbatim>\<open>symlink_target\<close> is \<open>None\<close>. The
  field \<^verbatim>\<open>n_dirents\<close> is the length of the array \<open>dirents\<close> (0 when it is null),
  which is how the code keeps it, and has no field of its own.
\<close>

record CaEncoderNode =
  fd :: int
  stat :: struct_stat
  dirents :: "dirent list option"
  dirent_idx :: nat
  symlink_target :: "byte list option"
  device_size :: u64

definition UINT64_MAX :: u64 where "UINT64_MAX = - 1"
definition UINT32_MAX :: u32 where "UINT32_MAX = 0xFFFFFFFF"
definition UINT16_MAX :: u32 where "UINT16_MAX = 0xFFFF"

datatype CaEncoderState =
    CA_ENCODER_INIT | CA_ENCODER_HELLO | CA_ENCODER_ENTRY
  | CA_ENCODER_POST_CHILD | CA_ENCODER_GOODBYE | CA_ENCODER_EOF

text \<open>
  \<^verbatim>\<open>struct CaEncoder\<close>. \<open>nodes\<close> is the live prefix \<^verbatim>\<open>nodes[0..n_nodes)\<close> of the fixed
  array; \<open>buffer\<close> is the content of the \<^verbatim>\<open>ReallocBuffer\<close>, its size the length.
\<close>

record CaEncoder =
  state :: CaEncoderState
  feature_flags :: u64
  time_granularity :: u64
  nodes :: "CaEncoderNode list"
  node_idx :: nat
  buffer :: "byte list"
  archive_offset :: u64
  payload_offset :: u64
  step_size :: u64

definition n_nodes :: "CaEncoder \<Rightarrow> nat" where
  "n_nodes e = length (nodes e)"

subsection \<open>The operating system\<close>

text \<open>
  Each system call takes the world and returns its result with the new world.
  \<open>sys_readdir\<close> is the raw listing that \<^verbatim>\<open>scandirat\<close> filters and sorts,
  \<open>sys_readlinkat\<close> the whole text of a link (\<open>readlinkat\<close> below cuts it to the
  buffer), \<open>sys_malloc\<close> tells whether an allocation of that many bytes succeeds,
  \<open>sys_read\<close> returns the bytes read (at most the count asked for) at the descriptor's
  position, \<open>sys_close\<close> returns the error of \<^verbatim>\<open>close\<close>, if there is one.
\<close>

record 'w os =
  sys_fstat :: "int \<Rightarrow> 'w \<Rightarrow> (error + struct_stat) \<times> 'w"
  sys_fstatat :: "int \<Rightarrow> byte list \<Rightarrow> 'w \<Rightarrow> (error + struct_stat) \<times> 'w"
  sys_openat :: "int \<Rightarrow> byte list \<Rightarrow> bool \<Rightarrow> 'w \<Rightarrow> (error + int) \<times> 'w"
  sys_readdir :: "int \<Rightarrow> 'w \<Rightarrow> (error + dirent list) \<times> 'w"
  sys_readlinkat :: "int \<Rightarrow> byte list \<Rightarrow> 'w \<Rightarrow> (error + byte list) \<times> 'w"
  sys_blkgetsize :: "int \<Rightarrow> 'w \<Rightarrow> (error + u64) \<times> 'w"
  sys_read :: "int \<Rightarrow> nat \<Rightarrow> 'w \<Rightarrow> (error + byte list) \<times> 'w"
  sys_close :: "int \<Rightarrow> 'w \<Rightarrow> (error + unit) \<times> 'w"
  sys_malloc :: "nat \<Rightarrow> 'w \<Rightarrow> bool \<times> 'w"

subsection \<open>Construction and destruction\<close>

text \<open>
  \<^verbatim>\<open>ca_encoder_new\<close>: a zeroed object with the default flags and a granularity of
  one nanosecond. (When \<^verbatim>\<open>calloc\<close> fails there is no object at all.)
\<close>

definition ca_encoder_new :: "CaFormat \<Rightarrow> CaEncoder" where
  "ca_encoder_new c =
     \<lparr>state = CA_ENCODER_INIT, feature_flags = CA_FORMAT_WITH_BEST c,
      time_granularity = 1, nodes = [], node_idx = 0, buffer = [],
      archive_offset = 0, payload_offset = 0, step_size = 0\<rparr>"

text \<open>
  \<^verbatim>\<open>safe_close\<close> of util.h: a descriptor that is not negative is closed. The process is
  aborted when \<^verbatim>\<open>close\<close> reports \<^verbatim>\<open>EBADF\<close>; every other outcome of \<^verbatim>\<open>close\<close> is
  ignored. The result is \<open>-1\<close>.
\<close>

definition safe_close :: "'w os \<Rightarrow> int \<Rightarrow> 'w \<Rightarrow> (error + int) \<times> 'w" where
  "safe_close os fdv w =
     (if fdv \<ge> 0
      then (case sys_close os fdv w of
              (r, w') \<Rightarrow> if r = Inl EBADF then (Inl ABORT, w') else (Inr (- 1), w'))
      else (Inr (- 1), w))"

text \<open>
  \<^verbatim>\<open>ca_encoder_node_free\<close>: the descriptor is closed with \<^verbatim>\<open>safe_close\<close> when it is at
  least 3; the node's fields are reset. When \<^verbatim>\<open>safe_close\<close> aborts there is no node any
  more, only the world.
\<close>

definition ca_encoder_node_free ::
  "'w os \<Rightarrow> CaEncoderNode \<Rightarrow> 'w \<Rightarrow> (error + CaEncoderNode) \<times> 'w" where
  "ca_encoder_node_free os n w =
     (case (if fd n \<ge> 3 then safe_close os (fd n) w else (Inr (- 1), w)) of
        (Inl err, w') \<Rightarrow> (Inl err, w')
      | (Inr f, w') \<Rightarrow>
          (Inr (n\<lparr>fd := f, dirents := None, dirent_idx := 0, symlink_target := None,
                   device_size := UINT64_MAX\<rparr>), w'))"

text \<open>
  \<^verbatim>\<open>ca_encoder_unref\<close>: every live node is freed, from index 0 upwards, as long as the
  process is not aborted; the object is gone afterwards, so only the world is returned,
  with \<open>Inl ABORT\<close> when the process was aborted.
\<close>

fun free_nodes :: "'w os \<Rightarrow> CaEncoderNode list \<Rightarrow> 'w \<Rightarrow> (error + unit) \<times> 'w" where
  "free_nodes os [] w = (Inr (), w)"
| "free_nodes os (n # ns) w =
     (case ca_encoder_node_free os n w of
        (Inl err, w') \<Rightarrow> (Inl err, w')
      | (Inr _, w') \<Rightarrow> free_nodes os ns w')"

definition ca_encoder_unref :: "'w os \<Rightarrow> CaEncoder \<Rightarrow> 'w \<Rightarrow> (error + unit) \<times> 'w" where
  "ca_encoder_unref os e w = free_nodes os (nodes e) w"

subsection \<open>Feature flags\<close>

text \<open>
  The normalisation inside \<^verbatim>\<open>ca_encoder_set_feature_flags\<close>, statement by statement:
  the local variables \<^verbatim>\<open>flags\<close> and \<^verbatim>\<open>granularity\<close> after each \<^verbatim>\<open>if\<close>. The
  granularity starts at 0.
\<close>

definition normalize_feature_flags :: "CaFormat \<Rightarrow> u64 \<Rightarrow> u64 \<times> u64" where
  "normalize_feature_flags c flags0 =
     (let granularity0 = (0 :: u64);
          flags1 = (if flags0 AND CA_FORMAT_WITH_UID_GID_32BIT c \<noteq> 0
                    then flags0 AND NOT (CA_FORMAT_WITH_UID_GID_16BIT c) else flags0);
          flags2 = (if flags1 AND CA_FORMAT_WITH_TIMES_NSEC c \<noteq> 0
                    then flags1 AND NOT (CA_FORMAT_WITH_TIMES_USEC c OR CA_FORMAT_WITH_TIMES_SEC c
                                          OR CA_FORMAT_WITH_TIMES_2SEC c)
                    else flags1);
          granularity2 = (if flags1 AND CA_FORMAT_WITH_TIMES_NSEC c \<noteq> 0 then 1 else granularity0);
          flags3 = (if flags2 AND CA_FORMAT_WITH_TIMES_USEC c \<noteq> 0
                    then flags2 AND NOT (CA_FORMAT_WITH_TIMES_SEC c OR CA_FORMAT_WITH_TIMES_2SEC c)
                    else flags2);
          granularity3 = (if flags2 AND CA_FORMAT_WITH_TIMES_USEC c \<noteq> 0 then 1000 else granularity2);
          flags4 = (if flags3 AND CA_FORMAT_WITH_TIMES_SEC c \<noteq> 0
                    then flags3 AND NOT (CA_FORMAT_WITH_TIMES_2SEC c) else flags3);
          granularity4 = (if flags3 AND CA_FORMAT_WITH_TIMES_SEC c \<noteq> 0
                          then 1000000000 else granularity3);
          granularity5 = (if flags4 AND CA_FORMAT_WITH_TIMES_2SEC c \<noteq> 0
                          then 2000000000 else granularity4);
          flags5 = (if flags4 AND CA_FORMAT_WITH_PERMISSIONS c \<noteq> 0
                    then flags4 AND NOT (CA_FORMAT_WITH_READONLY c) else flags4)
      in (flags5, granularity5))"

definition ca_encoder_set_feature_flags ::
  "CaFormat \<Rightarrow> CaEncoder \<Rightarrow> u64 \<Rightarrow> (error + int) \<times> CaEncoder" where
  "ca_encoder_set_feature_flags c e flags =
     (if flags AND NOT (CA_FORMAT_FEATURE_FLAGS_MAX c) \<noteq> 0 then (Inl EOPNOTSUPP, e)
      else (Inr 0, e\<lparr>feature_flags := fst (normalize_feature_flags c flags),
                      time_granularity := snd (normalize_feature_flags c flags)\<rparr>))"

definition ca_encoder_get_feature_flags :: "CaEncoder \<Rightarrow> u64" where
  "ca_encoder_get_feature_flags e = feature_flags e"

subsection \<open>The base descriptor\<close>

definition ca_encoder_set_base_fd ::
  "'w os \<Rightarrow> CaEncoder \<Rightarrow> int \<Rightarrow> 'w \<Rightarrow> (error + int) \<times> CaEncoder \<times> 'w" where
  "ca_encoder_set_base_fd os e fdv w =
     (if fdv < 0 then (Inl EINVAL, e, w)
      else if n_nodes e > 0 then (Inl EBUSY, e, w)
      else case sys_fstat os fdv w of
             (Inl err, w') \<Rightarrow> (Inl err, e, w')
           | (Inr st, w') \<Rightarrow>
               if \<not> S_ISREG (st_mode st) \<and> \<not> S_ISDIR (st_mode st) \<and> \<not> S_ISBLK (st_mode st)
               then (Inl ENOTTY, e, w')
               else (Inr 0,
                     e\<lparr>nodes := [\<lparr>fd = fdv, stat = st, dirents = None, dirent_idx = 0,
                                   symlink_target = None, device_size = UINT64_MAX\<rparr>]\<rparr>,
                     w'))"

subsection \<open>Node accessors\<close>

definition ca_encoder_current_node :: "CaEncoder \<Rightarrow> CaEncoderNode option" where
  "ca_encoder_current_node e =
     (if node_idx e \<ge> n_nodes e then None else Some (nodes e ! node_idx e))"

definition ca_encoder_current_child_node :: "CaEncoder \<Rightarrow> CaEncoderNode option" where
  "ca_encoder_current_child_node e =
     (if node_idx e + 1 \<ge> n_nodes e then None else Some (nodes e ! (node_idx e + 1)))"

definition ca_encoder_node_current_dirent :: "CaEncoderNode \<Rightarrow> dirent option" where
  "ca_encoder_node_current_dirent n =
     (case dirents n of
        None \<Rightarrow> None
      | Some ds \<Rightarrow> if dirent_idx n \<ge> length ds then None else Some (ds ! dirent_idx n))"

text \<open>Writing through the pointers \<^verbatim>\<open>n\<close> (the current node) and \<^verbatim>\<open>child\<close> (the last node).\<close>

definition set_current_node :: "CaEncoder \<Rightarrow> CaEncoderNode \<Rightarrow> CaEncoder" where
  "set_current_node e n = e\<lparr>nodes := (nodes e)[node_idx e := n]\<rparr>"

definition set_last_node :: "CaEncoder \<Rightarrow> CaEncoderNode \<Rightarrow> CaEncoder" where
  "set_last_node e n = e\<lparr>nodes := (nodes e)[length (nodes e) - 1 := n]\<rparr>"

subsection \<open>C strings\<close>

text \<open>A C string ends at its first NUL byte.\<close>

definition cstr :: "byte list \<Rightarrow> byte list" where
  "cstr xs = takeWhile (\<lambda>b. b \<noteq> 0) xs"

definition strlen :: "byte list \<Rightarrow> nat" where
  "strlen xs = length (cstr xs)"

definition cchar :: "byte list \<Rightarrow> nat \<Rightarrow> byte" where
  "cchar xs i = (if i < strlen xs then cstr xs ! i else 0)"

fun strcmp :: "byte list \<Rightarrow> byte list \<Rightarrow> int" where
  "strcmp [] [] = 0"
| "strcmp [] (y # ys) = - 1"
| "strcmp (x # xs) [] = 1"
| "strcmp (x # xs) (y # ys) =
     (if x = y then strcmp xs ys else if unat x < unat y then - 1 else 1)"

subsection \<open>Reading a directory\<close>

definition scandir_filter :: "dirent \<Rightarrow> bool" where
  "scandir_filter de =
     (if cchar (d_name de) 0 \<noteq> 0x2E then True
      else if cchar (d_name de) 1 = 0 then False
      else if cchar (d_name de) 1 \<noteq> 0x2E then True
      else cchar (d_name de) 2 \<noteq> 0)"

definition scandir_compare :: "dirent \<Rightarrow> dirent \<Rightarrow> int" where
  "scandir_compare a b = strcmp (cstr (d_name a)) (cstr (d_name b))"

fun insert_dirent :: "dirent \<Rightarrow> dirent list \<Rightarrow> dirent list" where
  "insert_dirent d [] = [d]"
| "insert_dirent d (x # xs) =
     (if scandir_compare d x \<le> 0 then d # x # xs else x # insert_dirent d xs)"

definition sort_dirents :: "dirent list \<Rightarrow> dirent list" where
  "sort_dirents ds = foldr insert_dirent ds []"

text \<open>
  \<^verbatim>\<open>scandirat\<close> of the C library: the selected entries, sorted with the comparison
  function. When no entry is selected the name list stays null and the count is 0.
\<close>

definition scandirat :: "'w os \<Rightarrow> int \<Rightarrow> 'w \<Rightarrow> (error + dirent list option) \<times> 'w" where
  "scandirat os dfd w =
     (case sys_readdir os dfd w of
        (Inl err, w') \<Rightarrow> (Inl err, w')
      | (Inr raw, w') \<Rightarrow>
          (let sel = filter scandir_filter raw
           in (Inr (if sel = [] then None else Some (sort_dirents sel)), w')))"

definition ca_encoder_node_read_dirents ::
  "'w os \<Rightarrow> CaEncoderNode \<Rightarrow> 'w \<Rightarrow> (error + int) \<times> CaEncoderNode \<times> 'w" where
  "ca_encoder_node_read_dirents os n w =
     (if dirents n \<noteq> None then (Inr 0, n, w)
      else if \<not> S_ISDIR (st_mode (stat n)) then (Inl ENOTDIR, n, w)
      else if fd n < 0 then (Inl EBADFD, n, w)
      else case scandirat os (fd n) w of
             (Inl err, w') \<Rightarrow> (Inl err, n, w')
           | (Inr ds, w') \<Rightarrow> (Inr 1, n\<lparr>dirents := ds, dirent_idx := 0\<rparr>, w'))"

subsection \<open>Block devices and symbolic links\<close>

definition ca_encoder_node_read_device_size ::
  "'w os \<Rightarrow> CaEncoderNode \<Rightarrow> 'w \<Rightarrow> (error + int) \<times> CaEncoderNode \<times> 'w" where
  "ca_encoder_node_read_device_size os n w =
     (if device_size n \<noteq> UINT64_MAX then (Inr 0, n, w)
      else if \<not> S_ISBLK (st_mode (stat n)) then (Inl ENOTTY, n, w)
      else if fd n < 0 then (Inl EBADFD, n, w)
      else case sys_blkgetsize os (fd n) w of
             (Inl err, w') \<Rightarrow> (Inl err, n, w')
           | (Inr u, w') \<Rightarrow> (Inr 1, n\<lparr>device_size := u * 512\<rparr>, w'))"

text \<open>
  \<^verbatim>\<open>readlinkat\<close> of the C library with a buffer of \<open>k\<close> bytes: at most \<open>k\<close> bytes of
  the link's text are placed in the buffer, and a buffer size of 0 is refused with
  \<^verbatim>\<open>EINVAL\<close> (readlinkat(2)). The result is the bytes placed.
\<close>

definition readlinkat ::
  "'w os \<Rightarrow> int \<Rightarrow> byte list \<Rightarrow> u64 \<Rightarrow> 'w \<Rightarrow> (error + byte list) \<times> 'w" where
  "readlinkat os dfd name k w =
     (if k = 0 then (Inl EINVAL, w)
      else case sys_readlinkat os dfd name w of
             (Inl err, w') \<Rightarrow> (Inl err, w')
           | (Inr text, w') \<Rightarrow> (Inr (take (unat k) text), w'))"

text \<open>
  The sizing loop of \<^verbatim>\<open>ca_encoder_node_read_symlink\<close>, with the \<^verbatim>\<open>size_t k\<close> as its
  argument: in every round a buffer of \<open>k + 1\<close> bytes is allocated and \<^verbatim>\<open>readlinkat\<close>
  fills at most \<open>k\<close> of them; the loop ends when fewer than \<open>k\<close> came back and doubles
  \<open>k\<close> otherwise. Doubling a 64-bit number gives 0 after 64 rounds at the latest, and
  \<^verbatim>\<open>readlinkat\<close> refuses that size, so the loop ends.
\<close>

function readlink_loop ::
  "'w os \<Rightarrow> int \<Rightarrow> byte list \<Rightarrow> u64 \<Rightarrow> 'w \<Rightarrow> (error + byte list) \<times> 'w" where
  "readlink_loop os dfd name k w =
     (case sys_malloc os (unat (k + 1)) w of
        (False, w1) \<Rightarrow> (Inl ENOMEM, w1)
      | (True, w1) \<Rightarrow>
          (case readlinkat os dfd name k w1 of
             (Inl err, w2) \<Rightarrow> (Inl err, w2)
           | (Inr buf, w2) \<Rightarrow>
               if length buf < unat k then (Inr buf, w2)
               else readlink_loop os dfd name (k * 2) w2))"
  by pat_completeness auto
termination
proof (relation "measure (\<lambda>(os, dfd, name, k, w). LEAST n. push_bit n k = 0)")
  show "wf (measure (\<lambda>(os, dfd, name, k, w). LEAST n. push_bit n k = 0))" by simp
next
  fix os :: "'w os" and dfd :: int and name :: "byte list" and k :: u64
    and w x w1 :: 'w and y :: bool and x2 :: "error + byte list" and w2 :: 'w and buf :: "byte list"
  assume "(x2, w2) = readlinkat os dfd name k w1" and "x2 = Inr buf"
  then have k: "k \<noteq> 0" by (auto simp add: readlinkat_def split: if_splits)
  have "push_bit 64 k = 0" by (rule bit_word_eqI) (simp add: bit_push_bit_iff)
  moreover from k have "\<not> push_bit 0 k = 0" by simp
  ultimately have "(LEAST n. push_bit n k = 0) = Suc (LEAST m. push_bit (Suc m) k = 0)"
    by (rule Least_Suc)
  then have "(LEAST n. push_bit n (k * 2) = 0) < (LEAST n. push_bit n k = 0)" by simp
  then show "((os, dfd, name, k * 2, w2), (os, dfd, name, k, w))
               \<in> measure (\<lambda>(os, dfd, name, k, w). LEAST n. push_bit n k = 0)" by simp
qed

definition ca_encoder_node_read_symlink ::
  "'w os \<Rightarrow> CaEncoderNode \<Rightarrow> dirent \<Rightarrow> CaEncoderNode \<Rightarrow> 'w
     \<Rightarrow> (error + int) \<times> CaEncoderNode \<times> 'w" where
  "ca_encoder_node_read_symlink os n de symlink w =
     (if \<not> S_ISDIR (st_mode (stat n)) then (Inl ENOTDIR, symlink, w)
      else if fd n < 0 then (Inl EBADFD, symlink, w)
      else if \<not> S_ISLNK (st_mode (stat symlink)) then (Inl ENOTTY, symlink, w)
      else if symlink_target symlink \<noteq> None then (Inr 0, symlink, w)
      else case readlink_loop os (fd n) (cstr (d_name de)) 16 w of
             (Inl err, w') \<Rightarrow> (Inl err, symlink, w')
           | (Inr buf, w') \<Rightarrow> (Inr 1, symlink\<lparr>symlink_target := Some buf\<rparr>, w'))"

subsection \<open>The traversal stack\<close>

text \<open>
  \<^verbatim>\<open>ca_encoder_forget_children\<close>: as long as there is a node above \<open>node_idx\<close>, the
  count is decremented and the node that was last is freed. Every caller has a current
  node, so \<open>n_nodes\<close> is at least 1 there. When freeing a node aborts the process, the
  result is \<open>Inl ABORT\<close>.
\<close>

function ca_encoder_forget_children ::
  "'w os \<Rightarrow> CaEncoder \<Rightarrow> 'w \<Rightarrow> (error + unit) \<times> CaEncoder \<times> 'w" where
  "ca_encoder_forget_children os e w =
     (if n_nodes e - 1 > node_idx e
      then (case ca_encoder_node_free os (last (nodes e)) w of
              (Inl err, w') \<Rightarrow> (Inl err, e\<lparr>nodes := butlast (nodes e)\<rparr>, w')
            | (Inr _, w') \<Rightarrow> ca_encoder_forget_children os (e\<lparr>nodes := butlast (nodes e)\<rparr>) w')
      else (Inr (), e, w))"
  by pat_completeness auto
termination
  by (relation "measure (\<lambda>(os, e, w). length (nodes e))") (auto simp add: n_nodes_def)

declare readlink_loop.simps [simp del]
declare ca_encoder_forget_children.simps [simp del]

definition new_child_node :: CaEncoderNode where
  "new_child_node = \<lparr>fd = - 1, stat = zero_stat, dirents = None, dirent_idx = 0,
                      symlink_target = None, device_size = UINT64_MAX\<rparr>"

text \<open>\<^verbatim>\<open>ca_encoder_init_child\<close>: \<open>Inr False\<close> is the null result.\<close>

definition ca_encoder_init_child ::
  "CaFormat \<Rightarrow> 'w os \<Rightarrow> CaEncoder \<Rightarrow> 'w \<Rightarrow> (error + bool) \<times> CaEncoder \<times> 'w" where
  "ca_encoder_init_child c os e w =
     (case ca_encoder_forget_children os e w of
        (Inl err, e1, w1) \<Rightarrow> (Inl err, e1, w1)
      | (Inr _, e1, w1) \<Rightarrow>
          if n_nodes e1 \<ge> NODES_MAX c then (Inr False, e1, w1)
          else (Inr True, e1\<lparr>nodes := nodes e1 @ [new_child_node]\<rparr>, w1))"

text \<open>
  \<^verbatim>\<open>ca_encoder_open_child\<close>, in the three stages of the function. The first decides
  from \<^verbatim>\<open>d_type\<close>, or from \<^verbatim>\<open>fstatat\<close>, whether the child is to be opened, whether
  its stat is known already and whether \<^verbatim>\<open>O_DIRECTORY\<close> is asked for.
\<close>

definition open_child_stat ::
  "'w os \<Rightarrow> CaEncoderNode \<Rightarrow> dirent \<Rightarrow> CaEncoderNode \<Rightarrow> 'w
     \<Rightarrow> (error + bool \<times> bool \<times> bool) \<times> CaEncoderNode \<times> 'w" where
  "open_child_stat os n de child w =
     (if d_type de = DT_DIR \<or> d_type de = DT_REG
      then (Inr (True, False, d_type de = DT_DIR), child, w)
      else (case sys_fstatat os (fd n) (cstr (d_name de)) w of
              (Inl err, w') \<Rightarrow> (Inl err, child, w')
            | (Inr st, w') \<Rightarrow>
                (Inr (S_ISREG (st_mode st) \<or> S_ISDIR (st_mode st), True, S_ISDIR (st_mode st)),
                 child\<lparr>stat := st\<rparr>, w')))"

text \<open>The second opens the child and reads its stat if that is still missing.\<close>

definition open_child_open ::
  "'w os \<Rightarrow> CaEncoderNode \<Rightarrow> dirent \<Rightarrow> bool \<times> bool \<times> bool \<Rightarrow> CaEncoderNode \<Rightarrow> 'w
     \<Rightarrow> (error + int) \<times> CaEncoderNode \<times> 'w" where
  "open_child_open os n de how child w =
     (case how of
        (shall_open, have_stat, o_directory) \<Rightarrow>
          (if \<not> shall_open then (Inr 0, child, w)
           else (case sys_openat os (fd n) (cstr (d_name de)) o_directory w of
                   (Inl err, w') \<Rightarrow> (Inl err, child\<lparr>fd := - 1\<rparr>, w')
                 | (Inr cfd, w') \<Rightarrow>
                     (if cfd < 0 then (Inl (ERRNO 0), child\<lparr>fd := cfd\<rparr>, w')
                      else if have_stat then (Inr 0, child\<lparr>fd := cfd\<rparr>, w')
                      else (case sys_fstat os cfd w' of
                              (Inl err, w'') \<Rightarrow> (Inl err, child\<lparr>fd := cfd\<rparr>, w'')
                            | (Inr st, w'') \<Rightarrow> (Inr 0, child\<lparr>fd := cfd, stat := st\<rparr>, w''))))))"

text \<open>The third reads the target of a symbolic link.\<close>

definition open_child_symlink ::
  "'w os \<Rightarrow> CaEncoderNode \<Rightarrow> dirent \<Rightarrow> CaEncoderNode \<Rightarrow> 'w
     \<Rightarrow> (error + int) \<times> CaEncoderNode \<times> 'w" where
  "open_child_symlink os n de child w =
     (if S_ISLNK (st_mode (stat child))
      then (case ca_encoder_node_read_symlink os n de child w of
              (Inl err, child', w') \<Rightarrow> (Inl err, child', w')
            | (Inr r, child', w') \<Rightarrow> (Inr 0, child', w'))
      else (Inr 0, child, w))"

text \<open>
  The child is the last node of the stack; it stays there, as far as it was filled,
  also when the function fails.
\<close>

definition ca_encoder_open_child ::
  "CaFormat \<Rightarrow> 'w os \<Rightarrow> CaEncoder \<Rightarrow> dirent \<Rightarrow> 'w \<Rightarrow> (error + int) \<times> CaEncoder \<times> 'w" where
  "ca_encoder_open_child c os e de w =
     (case ca_encoder_current_node e of
        None \<Rightarrow> (Inl EUNATCH, e, w)
      | Some n \<Rightarrow>
          (if \<not> S_ISDIR (st_mode (stat n)) then (Inl ENOTDIR, e, w)
           else if fd n < 0 then (Inl EBADFD, e, w)
           else (case ca_encoder_init_child c os e w of
                   (Inl err, e1, w1) \<Rightarrow> (Inl err, e1, w1)
                 | (Inr False, e1, w1) \<Rightarrow> (Inl E2BIG, e1, w1)
                 | (Inr True, e1, w1) \<Rightarrow>
                     (case open_child_stat os n de new_child_node w1 of
                        (Inl err, child1, w2) \<Rightarrow> (Inl err, set_last_node e1 child1, w2)
                      | (Inr how, child1, w2) \<Rightarrow>
                          (case open_child_open os n de how child1 w2 of
                             (Inl err, child2, w3) \<Rightarrow> (Inl err, set_last_node e1 child2, w3)
                           | (Inr r, child2, w3) \<Rightarrow>
                               (case open_child_symlink os n de child2 w3 of
                                  (r', child3, w4) \<Rightarrow> (r', set_last_node e1 child3, w4)))))))"

definition ca_encoder_enter_child :: "CaEncoder \<Rightarrow> (error + int) \<times> CaEncoder" where
  "ca_encoder_enter_child e =
     (if node_idx e + 1 \<ge> n_nodes e then (Inl EINVAL, e)
      else let child = nodes e ! (node_idx e + 1); mode = st_mode (stat child)
           in if mode = 0 then (Inl EINVAL, e)
              else if \<not> S_ISREG mode \<and> \<not> S_ISDIR mode then (Inl ENOTTY, e)
              else if fd child < 0 then (Inl EINVAL, e)
              else (Inr 0, e\<lparr>node_idx := node_idx e + 1\<rparr>))"

definition ca_encoder_leave_child :: "CaEncoder \<Rightarrow> int \<times> CaEncoder" where
  "ca_encoder_leave_child e =
     (if node_idx e \<le> 0 then (0, e) else (1, e\<lparr>node_idx := node_idx e - 1\<rparr>))"

definition ca_encoder_node_get_payload_size ::
  "'w os \<Rightarrow> CaEncoderNode \<Rightarrow> 'w \<Rightarrow> (error + u64) \<times> CaEncoderNode \<times> 'w" where
  "ca_encoder_node_get_payload_size os n w =
     (if S_ISREG (st_mode (stat n)) then (Inr (st_size (stat n)), n, w)
      else if S_ISBLK (st_mode (stat n))
      then case ca_encoder_node_read_device_size os n w of
             (Inl err, n', w') \<Rightarrow> (Inl err, n', w')
           | (Inr _, n', w') \<Rightarrow> (Inr (device_size n'), n', w')
      else (Inl ENOTTY, n, w))"

subsection \<open>The state machine\<close>

definition ca_encoder_enter_state :: "CaEncoder \<Rightarrow> CaEncoderState \<Rightarrow> CaEncoder" where
  "ca_encoder_enter_state e s = e\<lparr>state := s, buffer := [], payload_offset := 0, step_size := 0\<rparr>"

definition ca_encoder_step_regular ::
  "'w os \<Rightarrow> CaEncoder \<Rightarrow> CaEncoderNode \<Rightarrow> 'w \<Rightarrow> (error + step_result) \<times> CaEncoder \<times> 'w" where
  "ca_encoder_step_regular os e n w =
     (if \<not> (S_ISREG (st_mode (stat n)) \<or> S_ISBLK (st_mode (stat n))) then (Inl ABORT, e, w)
      else if state e \<noteq> CA_ENCODER_INIT then (Inl ABORT, e, w)
      else
        let e1 = e\<lparr>buffer := []\<rparr>
        in case ca_encoder_node_get_payload_size os n w of
             (Inl err, n', w') \<Rightarrow> (Inl err, set_current_node e1 n', w')
           | (Inr sz, n', w') \<Rightarrow>
               (let e2 = set_current_node e1 n'
                in if payload_offset e2 \<ge> sz
                   then (Inr CA_ENCODER_FINISHED, ca_encoder_enter_state e2 CA_ENCODER_EOF, w')
                   else (Inr CA_ENCODER_DATA, e2, w')))"

text \<open>
  The part of \<^verbatim>\<open>ca_encoder_step_directory\<close> that the cases \<^verbatim>\<open>CA_ENCODER_ENTRY\<close>
  (for a child that is not entered), \<^verbatim>\<open>CA_ENCODER_POST_CHILD\<close> and
  \<^verbatim>\<open>CA_ENCODER_HELLO\<close> share by falling through: the node \<open>n\<close> is the current node
  after the cursor was advanced, or not.
\<close>

definition step_directory_hello ::
  "CaFormat \<Rightarrow> 'w os \<Rightarrow> CaEncoder \<Rightarrow> CaEncoderNode \<Rightarrow> 'w
     \<Rightarrow> (error + step_result) \<times> CaEncoder \<times> 'w" where
  "step_directory_hello c os e n w =
     (case ca_encoder_node_current_dirent n of
        None \<Rightarrow> (Inr CA_ENCODER_DATA, ca_encoder_enter_state e CA_ENCODER_GOODBYE, w)
      | Some de \<Rightarrow>
          (case ca_encoder_open_child c os e de w of
             (Inl err, e', w') \<Rightarrow> (Inl err, e', w')
           | (Inr _, e', w') \<Rightarrow>
               (Inr CA_ENCODER_NEXT_FILE, ca_encoder_enter_state e' CA_ENCODER_ENTRY, w')))"

definition step_directory_post_child ::
  "CaFormat \<Rightarrow> 'w os \<Rightarrow> CaEncoder \<Rightarrow> CaEncoderNode \<Rightarrow> 'w
     \<Rightarrow> (error + step_result) \<times> CaEncoder \<times> 'w" where
  "step_directory_post_child c os e n w =
     (let n' = n\<lparr>dirent_idx := dirent_idx n + 1\<rparr>
      in step_directory_hello c os (set_current_node e n') n' w)"

text \<open>The first statements of \<^verbatim>\<open>ca_encoder_step\<close>: the last chunk is counted.\<close>

definition consume_step_size :: "CaEncoder \<Rightarrow> CaEncoder" where
  "consume_step_size e =
     e\<lparr>payload_offset := payload_offset e + step_size e,
       archive_offset := archive_offset e + step_size e,
       step_size := 0\<rparr>"

text \<open>
  \<^verbatim>\<open>ca_encoder_step\<close>, its loop and \<^verbatim>\<open>ca_encoder_step_directory\<close> call each other,
  and the loop goes on with what the nested call returns. The three functions recurse
  on a counter that bounds the depth of the calls; \<open>None\<close> means the counter ran out.
  \<open>ca_encoder_step\<close> below starts it at a value that never runs out.
\<close>

fun step_fuel ::
  "CaFormat \<Rightarrow> 'w os \<Rightarrow> nat \<Rightarrow> CaEncoder \<Rightarrow> 'w
     \<Rightarrow> ((error + step_result) \<times> CaEncoder \<times> 'w) option"
and step_loop_fuel ::
  "CaFormat \<Rightarrow> 'w os \<Rightarrow> nat \<Rightarrow> CaEncoder \<Rightarrow> 'w
     \<Rightarrow> ((error + step_result) \<times> CaEncoder \<times> 'w) option"
and step_directory_fuel ::
  "CaFormat \<Rightarrow> 'w os \<Rightarrow> nat \<Rightarrow> CaEncoder \<Rightarrow> CaEncoderNode \<Rightarrow> 'w
     \<Rightarrow> ((error + step_result) \<times> CaEncoder \<times> 'w) option"
where
  "step_fuel c os 0 e w = None"
| "step_fuel c os (Suc k) e w =
     (if state e = CA_ENCODER_EOF then Some (Inr CA_ENCODER_FINISHED, e, w)
      else step_loop_fuel c os k (consume_step_size e) w)"
| "step_loop_fuel c os 0 e w = None"
| "step_loop_fuel c os (Suc k) e w =
     (case ca_encoder_current_node e of
        None \<Rightarrow> Some (Inl EUNATCH, e, w)
      | Some n \<Rightarrow>
          (case (if S_ISREG (st_mode (stat n)) \<or> S_ISBLK (st_mode (stat n))
                 then Some (ca_encoder_step_regular os e n w)
                 else if S_ISDIR (st_mode (stat n)) then step_directory_fuel c os k e n w
                 else Some (Inl ENOTTY, e, w)) of
             None \<Rightarrow> None
           | Some (r, e', w') \<Rightarrow>
               if r \<noteq> Inr CA_ENCODER_FINISHED then Some (r, e', w')
               else (case ca_encoder_leave_child e' of
                       (r', e'') \<Rightarrow>
                         if r' = 0
                         then Some (case ca_encoder_forget_children os e'' w' of
                                      (Inl err, e3, w3) \<Rightarrow> (Inl err, e3, w3)
                                    | (Inr _, e3, w3) \<Rightarrow> (Inr CA_ENCODER_FINISHED, e3, w3))
                         else step_loop_fuel c os k
                                (ca_encoder_enter_state e'' CA_ENCODER_POST_CHILD) w')))"
| "step_directory_fuel c os 0 e n w = None"
| "step_directory_fuel c os (Suc k) e n w =
     (if \<not> S_ISDIR (st_mode (stat n)) then Some (Inl ABORT, e, w)
      else case ca_encoder_node_read_dirents os n w of
        (Inl err, n1, w1) \<Rightarrow> Some (Inl err, set_current_node e n1, w1)
      | (Inr _, n1, w1) \<Rightarrow>
         (let e1 = set_current_node e n1
          in case state e1 of
               CA_ENCODER_INIT \<Rightarrow>
                 Some (Inr CA_ENCODER_DATA, ca_encoder_enter_state e1 CA_ENCODER_HELLO, w1)
             | CA_ENCODER_ENTRY \<Rightarrow>
                 (case ca_encoder_current_child_node e1 of
                    None \<Rightarrow> Some (Inl ENOTTY, e1, w1)
                  | Some child \<Rightarrow>
                      if S_ISDIR (st_mode (stat child)) \<or> S_ISREG (st_mode (stat child))
                      then (case ca_encoder_enter_child e1 of
                              (Inl err, e2) \<Rightarrow> Some (Inl err, e2, w1)
                            | (Inr _, e2) \<Rightarrow>
                                step_fuel c os k (ca_encoder_enter_state e2 CA_ENCODER_INIT) w1)
                      else Some (step_directory_post_child c os e1 n1 w1))
             | CA_ENCODER_POST_CHILD \<Rightarrow> Some (step_directory_post_child c os e1 n1 w1)
             | CA_ENCODER_HELLO \<Rightarrow> Some (step_directory_hello c os e1 n1 w1)
             | CA_ENCODER_GOODBYE \<Rightarrow>
                 Some (Inr CA_ENCODER_FINISHED, ca_encoder_enter_state e1 CA_ENCODER_EOF, w1)
             | CA_ENCODER_EOF \<Rightarrow> Some (Inl ABORT, e1, w1)))"

text \<open>
  \<^verbatim>\<open>ca_encoder_step\<close>. Seven levels are enough for every encoder and every world
  (\<open>step_fuel_enough\<close> below), so the last case is never taken.
\<close>

definition ca_encoder_step ::
  "CaFormat \<Rightarrow> 'w os \<Rightarrow> CaEncoder \<Rightarrow> 'w \<Rightarrow> (error + step_result) \<times> CaEncoder \<times> 'w" where
  "ca_encoder_step c os e w =
     (case step_fuel c os 7 e w of Some r \<Rightarrow> r | None \<Rightarrow> (Inl ABORT, e, w))"

subsection \<open>Record layout\<close>

text \<open>\<^verbatim>\<open>htole64\<close> followed by the copy into the buffer: the eight bytes, lowest first.\<close>

definition le64 :: "u64 \<Rightarrow> byte list" where
  "le64 v = [ucast v, ucast (drop_bit 8 v), ucast (drop_bit 16 v), ucast (drop_bit 24 v),
             ucast (drop_bit 32 v), ucast (drop_bit 40 v), ucast (drop_bit 48 v),
             ucast (drop_bit 56 v)]"

text \<open>Reading a little-endian 64-bit field back from the front of a byte sequence.\<close>

definition read_le64 :: "byte list \<Rightarrow> u64" where
  "read_le64 bs =
     (if length bs < 8 then 0
      else ucast (bs ! 0) OR push_bit 8 (ucast (bs ! 1)) OR push_bit 16 (ucast (bs ! 2))
           OR push_bit 24 (ucast (bs ! 3)) OR push_bit 32 (ucast (bs ! 4))
           OR push_bit 40 (ucast (bs ! 5)) OR push_bit 48 (ucast (bs ! 6))
           OR push_bit 56 (ucast (bs ! 7)))"

text \<open>
  Modelled from the spec: the record structures of caformat.h, which is absent. Every
  record starts with a 16-byte header of two 64-bit fields, type then size; HELLO adds
  \<^verbatim>\<open>uuid_part2\<close> and \<^verbatim>\<open>feature_flags\<close>; ENTRY adds \<^verbatim>\<open>mode\<close>, \<^verbatim>\<open>uid\<close>, \<^verbatim>\<open>gid\<close>,
  \<^verbatim>\<open>mtime\<close> and the name; PAYLOAD and SYMLINK add their bytes; DEVICE adds
  \<^verbatim>\<open>major\<close> and \<^verbatim>\<open>minor\<close>; GOODBYE adds a table of 64-bit entries.
\<close>

definition sizeof_CaFormatHeader :: nat where "sizeof_CaFormatHeader = 16"
definition sizeof_CaFormatHello :: nat where "sizeof_CaFormatHello = 32"
definition offsetof_CaFormatEntry_name :: nat where "offsetof_CaFormatEntry_name = 48"
definition offsetof_CaFormatPayload_data :: nat where "offsetof_CaFormatPayload_data = 16"
definition offsetof_CaFormatSymlink_target :: nat where "offsetof_CaFormatSymlink_target = 16"
definition sizeof_CaFormatDevice :: nat where "sizeof_CaFormatDevice = 32"
definition offsetof_CaFormatGoodbye_table :: nat where "offsetof_CaFormatGoodbye_table = 16"
definition sizeof_le64_t :: nat where "sizeof_le64_t = 8"

definition CaFormatHeader :: "u64 \<Rightarrow> u64 \<Rightarrow> byte list" where
  "CaFormatHeader ty sz = le64 ty @ le64 sz"

text \<open>
  Modelled from the spec: \<^verbatim>\<open>realloc_buffer_acquire\<close> and \<^verbatim>\<open>realloc_buffer_acquire0\<close>
  of realloc-buffer.h, which is absent. The buffer gets exactly the size asked for (the
  second zeroes it), unless memory runs out; \<open>False\<close> is the null result.
\<close>

definition realloc_buffer_acquire :: "'w os \<Rightarrow> nat \<Rightarrow> 'w \<Rightarrow> bool \<times> 'w" where
  "realloc_buffer_acquire os sz w = sys_malloc os sz w"

text \<open>Writing \<open>bs\<close> at the start of a buffer \<open>buf\<close> that is long enough to hold it.\<close>

definition buffer_write :: "byte list \<Rightarrow> byte list \<Rightarrow> byte list" where
  "buffer_write buf bs = bs @ drop (length bs) buf"

subsection \<open>Record builders\<close>

definition ca_encoder_get_payload_data ::
  "CaFormat \<Rightarrow> 'w os \<Rightarrow> CaEncoder \<Rightarrow> CaEncoderNode \<Rightarrow> 'w \<Rightarrow> (error + int) \<times> CaEncoder \<times> 'w" where
  "ca_encoder_get_payload_data c os e n w =
     (case ca_encoder_node_get_payload_size os n w of
        (Inl err, n', w') \<Rightarrow> (Inl err, set_current_node e n', w')
      | (Inr sz, n', w') \<Rightarrow>
          (let e1 = set_current_node e n'
           in if payload_offset e1 \<ge> sz then (Inr 0, e1, w')
              else if length (buffer e1) > 0 then (Inr 1, e1, w')
              else
                (let k = unat (min (BUFFER_SIZE c) (sz - payload_offset e1))
                 in case realloc_buffer_acquire os k w' of
                      (False, w1) \<Rightarrow> (Inl ENOMEM, e1, w1)
                    | (True, w1) \<Rightarrow>
                        (case sys_read os (fd n') k w1 of
                           (Inl err, w2) \<Rightarrow> (Inl err, e1\<lparr>buffer := []\<rparr>, w2)
                         | (Inr bs, w2) \<Rightarrow>
                             if length bs \<noteq> k then (Inl EIO, e1\<lparr>buffer := []\<rparr>, w2)
                             else (Inr 1, e1\<lparr>buffer := bs\<rparr>, w2)))))"

definition ca_encoder_get_hello_data ::
  "CaFormat \<Rightarrow> 'w os \<Rightarrow> CaEncoder \<Rightarrow> 'w \<Rightarrow> (error + int) \<times> CaEncoder \<times> 'w" where
  "ca_encoder_get_hello_data c os e w =
     (if length (buffer e) > 0 then (Inr 1, e, w)
      else case realloc_buffer_acquire os sizeof_CaFormatHello w of
             (False, w') \<Rightarrow> (Inl ENOMEM, e, w')
           | (True, w') \<Rightarrow>
               (Inr 1,
                e\<lparr>buffer := CaFormatHeader (CA_FORMAT_HELLO c) (of_nat sizeof_CaFormatHello)
                              @ le64 (CA_FORMAT_HELLO_UUID_PART2 c) @ le64 (feature_flags e)\<rparr>,
                w'))"

text \<open>\<^verbatim>\<open>timespec_to_nsec\<close> of util.h, in 64-bit arithmetic.\<close>

definition timespec_to_nsec :: "u64 \<Rightarrow> u64 \<Rightarrow> u64" where
  "timespec_to_nsec tv_sec tv_nsec = tv_sec * 1000000000 + tv_nsec"

text \<open>
  The mode field of an entry, computed on the 64-bit variable \<^verbatim>\<open>mode\<close>. The masks are
  the octal constants 0777 = 511, 07777 = 4095, 0222 = 146, 0666 = 438, 0555 = 365 and
  0444 = 292.
\<close>

definition mode_is :: "u64 \<Rightarrow> u32 \<Rightarrow> bool" where
  "mode_is mode ty \<longleftrightarrow> mode AND ucast S_IFMT = ucast ty"

definition entry_mode :: "CaFormat \<Rightarrow> u64 \<Rightarrow> u32 \<Rightarrow> u64" where
  "entry_mode c flags m =
     (let mode0 = (ucast m :: u64);
          mode1 = (if mode_is mode0 S_IFLNK then ucast S_IFLNK OR 511 else mode0)
      in if flags AND CA_FORMAT_WITH_PERMISSIONS c \<noteq> 0
         then mode1 AND (ucast S_IFMT OR 4095)
         else if flags AND CA_FORMAT_WITH_READONLY c \<noteq> 0
         then (mode1 AND ucast S_IFMT)
              OR (if mode1 AND 146 \<noteq> 0
                  then (if mode_is mode1 S_IFDIR then 511 else 438)
                  else (if mode_is mode1 S_IFDIR then 365 else 292))
         else mode1 AND ucast S_IFMT)"

text \<open>\<^verbatim>\<open>major\<close> and \<^verbatim>\<open>minor\<close> of sys/sysmacros.h (glibc).\<close>

definition dev_major :: "u64 \<Rightarrow> u64" where
  "dev_major dev = (drop_bit 32 dev AND 0xFFFFF000) OR (drop_bit 8 dev AND 0xFFF)"

definition dev_minor :: "u64 \<Rightarrow> u64" where
  "dev_minor dev = (drop_bit 12 dev AND 0xFFFFFF00) OR (dev AND 0xFF)"

text \<open>
  The target of a link as a C string. The builder reaches it only when the target was
  read (see \<open>entry_rejection\<close> below).
\<close>

definition link_target :: "CaEncoderNode \<Rightarrow> byte list" where
  "link_target child = (case symlink_target child of None \<Rightarrow> [] | Some t \<Rightarrow> cstr t)"

text \<open>The size of the chunk that holds the entry of \<open>de\<close> and what follows it for \<open>child\<close>.\<close>

definition entry_size :: "dirent \<Rightarrow> CaEncoderNode \<Rightarrow> nat" where
  "entry_size de child =
     offsetof_CaFormatEntry_name + strlen (d_name de) + 1
     + (if S_ISREG (st_mode (stat child)) then offsetof_CaFormatPayload_data
        else if S_ISLNK (st_mode (stat child))
        then offsetof_CaFormatSymlink_target + length (link_target child) + 1
        else if S_ISBLK (st_mode (stat child)) \<or> S_ISCHR (st_mode (stat child))
        then sizeof_CaFormatDevice
        else 0)"

text \<open>What follows the entry in the same chunk.\<close>

definition entry_trailer :: "CaFormat \<Rightarrow> CaEncoderNode \<Rightarrow> byte list" where
  "entry_trailer c child =
     (if S_ISREG (st_mode (stat child))
      then CaFormatHeader (CA_FORMAT_PAYLOAD c)
             (of_nat offsetof_CaFormatPayload_data + st_size (stat child))
      else if S_ISLNK (st_mode (stat child))
      then CaFormatHeader (CA_FORMAT_SYMLINK c)
             (of_nat (offsetof_CaFormatSymlink_target + length (link_target child) + 1))
           @ link_target child @ [0]
      else if S_ISBLK (st_mode (stat child)) \<or> S_ISCHR (st_mode (stat child))
      then CaFormatHeader (CA_FORMAT_DEVICE c) (of_nat sizeof_CaFormatDevice)
           @ le64 (dev_major (st_rdev (stat child))) @ le64 (dev_minor (st_rdev (stat child)))
      else [])"

definition entry_bytes ::
  "CaFormat \<Rightarrow> dirent \<Rightarrow> CaEncoderNode \<Rightarrow> u64 \<Rightarrow> u64 \<Rightarrow> u64 \<Rightarrow> u64 \<Rightarrow> byte list" where
  "entry_bytes c de child mode uid gid mtime =
     CaFormatHeader (CA_FORMAT_ENTRY c)
       (of_nat (offsetof_CaFormatEntry_name + strlen (d_name de) + 1))
     @ le64 mode @ le64 uid @ le64 gid @ le64 mtime
     @ cstr (d_name de) @ [0]
     @ entry_trailer c child"

text \<open>
  The fields \<^verbatim>\<open>uid\<close>, \<^verbatim>\<open>gid\<close> and \<^verbatim>\<open>mtime\<close> of an entry, as
  \<^verbatim>\<open>ca_encoder_get_entry_data\<close> computes them.
\<close>

definition entry_uid :: "CaFormat \<Rightarrow> u64 \<Rightarrow> struct_stat \<Rightarrow> u64" where
  "entry_uid c flags st =
     (if flags AND (CA_FORMAT_WITH_UID_GID_16BIT c OR CA_FORMAT_WITH_UID_GID_32BIT c) \<noteq> 0
      then ucast (st_uid st) else 0)"

definition entry_gid :: "CaFormat \<Rightarrow> u64 \<Rightarrow> struct_stat \<Rightarrow> u64" where
  "entry_gid c flags st =
     (if flags AND (CA_FORMAT_WITH_UID_GID_16BIT c OR CA_FORMAT_WITH_UID_GID_32BIT c) \<noteq> 0
      then ucast (st_gid st) else 0)"

definition entry_mtime :: "u64 \<Rightarrow> struct_stat \<Rightarrow> u64" where
  "entry_mtime granularity st =
     (timespec_to_nsec (st_mtim_sec st) (st_mtim_nsec st) div granularity) * granularity"

text \<open>
  The ways in which \<^verbatim>\<open>ca_encoder_get_entry_data\<close> gives up before it allocates the
  chunk, in the order of the source: the reserved user and group numbers, the 16-bit
  width, the four feature gates; then the two places where the C program has no defined
  behaviour, the division by a granularity of zero and the length of a link target that
  was never read.
\<close>

definition entry_rejection :: "CaFormat \<Rightarrow> CaEncoder \<Rightarrow> CaEncoderNode \<Rightarrow> error option" where
  "entry_rejection c e child =
     (let st = stat child; flags = feature_flags e
      in if st_uid st = UINT16_MAX \<or> st_uid st = UINT32_MAX
            \<or> st_gid st = UINT16_MAX \<or> st_gid st = UINT32_MAX
         then Some EINVAL
         else if flags AND CA_FORMAT_WITH_UID_GID_16BIT c \<noteq> 0
                 \<and> (st_uid st > UINT16_MAX \<or> st_gid st > UINT16_MAX)
         then Some EPROTONOSUPPORT
         else if flags AND CA_FORMAT_WITH_SYMLINKS c = 0 \<and> S_ISLNK (st_mode st)
         then Some EPROTONOSUPPORT
         else if flags AND CA_FORMAT_WITH_DEVICE_NODES c = 0
                 \<and> (S_ISBLK (st_mode st) \<or> S_ISCHR (st_mode st))
         then Some EPROTONOSUPPORT
         else if flags AND CA_FORMAT_WITH_FIFOS c = 0 \<and> S_ISFIFO (st_mode st)
         then Some EPROTONOSUPPORT
         else if flags AND CA_FORMAT_WITH_SOCKETS c = 0 \<and> S_ISSOCK (st_mode st)
         then Some EPROTONOSUPPORT
         else if time_granularity e = 0 then Some ABORT
         else if S_ISLNK (st_mode st) \<and> symlink_target child = None then Some ABORT
         else None)"

definition ca_encoder_get_entry_data ::
  "CaFormat \<Rightarrow> 'w os \<Rightarrow> CaEncoder \<Rightarrow> CaEncoderNode \<Rightarrow> 'w \<Rightarrow> (error + int) \<times> CaEncoder \<times> 'w" where
  "ca_encoder_get_entry_data c os e n w =
     (if length (buffer e) > 0 then (Inr 1, e, w)
      else case ca_encoder_node_current_dirent n of
        None \<Rightarrow> (Inl EILSEQ, e, w)
      | Some de \<Rightarrow>
         (case ca_encoder_current_child_node e of
            None \<Rightarrow> (Inl EILSEQ, e, w)
          | Some child \<Rightarrow>
             (case entry_rejection c e child of
                Some err \<Rightarrow> (Inl err, e, w)
              | None \<Rightarrow>
                 (case realloc_buffer_acquire os (entry_size de child) w of
                    (False, w') \<Rightarrow> (Inl ENOMEM, e, w')
                  | (True, w') \<Rightarrow>
                      (Inr 1,
                       e\<lparr>buffer :=
                           buffer_write (replicate (entry_size de child) 0)
                             (entry_bytes c de child
                                (entry_mode c (feature_flags e) (st_mode (stat child)))
                                (entry_uid c (feature_flags e) (stat child))
                                (entry_gid c (feature_flags e) (stat child))
                                (entry_mtime (time_granularity e) (stat child)))\<rparr>,
                       w')))))"

definition ca_encoder_get_goodbye_data ::
  "CaFormat \<Rightarrow> 'w os \<Rightarrow> CaEncoder \<Rightarrow> 'w \<Rightarrow> (error + int) \<times> CaEncoder \<times> 'w" where
  "ca_encoder_get_goodbye_data c os e w =
     (if length (buffer e) > 0 then (Inr 1, e, w)
      else
        (let sz = offsetof_CaFormatGoodbye_table + sizeof_le64_t
         in case realloc_buffer_acquire os sz w of
              (False, w') \<Rightarrow> (Inl ENOMEM, e, w')
            | (True, w') \<Rightarrow>
                (Inr 1,
                 e\<lparr>buffer := buffer_write (replicate sz 0)
                                (CaFormatHeader (CA_FORMAT_GOODBYE c) (of_nat sz) @ le64 (of_nat sz))\<rparr>,
                 w')))"

subsection \<open>Fetching the chunk\<close>

text \<open>
  \<^verbatim>\<open>ca_encoder_get_data\<close>. The result holds the return code, the pointer left in
  \<^verbatim>\<open>*ret\<close> (\<open>None\<close> for null, else the bytes it points to) and the size left in
  \<^verbatim>\<open>*ret_size\<close>.
\<close>

definition ca_encoder_get_data ::
  "CaFormat \<Rightarrow> 'w os \<Rightarrow> CaEncoder \<Rightarrow> 'w
     \<Rightarrow> (error + int \<times> byte list option \<times> nat) \<times> CaEncoder \<times> 'w" where
  "ca_encoder_get_data c os e w =
     (case ca_encoder_current_node e of
        None \<Rightarrow> (Inl EUNATCH, e, w)
      | Some n \<Rightarrow>
          (case (if S_ISREG (st_mode (stat n)) \<or> S_ISBLK (st_mode (stat n))
                 then (if state e \<noteq> CA_ENCODER_INIT then (Inl ENOTTY, e, w)
                       else ca_encoder_get_payload_data c os e n w)
                 else if S_ISDIR (st_mode (stat n))
                 then (case state e of
                         CA_ENCODER_HELLO \<Rightarrow> ca_encoder_get_hello_data c os e w
                       | CA_ENCODER_ENTRY \<Rightarrow> ca_encoder_get_entry_data c os e n w
                       | CA_ENCODER_GOODBYE \<Rightarrow> ca_encoder_get_goodbye_data c os e w
                       | _ \<Rightarrow> (Inl ENOTTY, e, w))
                 else (Inl ENOTTY, e, w)) of
             (Inl err, e', w') \<Rightarrow> (Inl err, e', w')
           | (Inr r, e', w') \<Rightarrow>
               if r = 0 then (Inr (0, None, 0), e'\<lparr>step_size := 0\<rparr>, w')
               else (Inr (1, Some (buffer e'), length (buffer e')),
                     e'\<lparr>step_size := of_nat (length (buffer e'))\<rparr>, w')))"

subsection \<open>Queries\<close>

definition ca_encoder_current_payload_offset :: "CaEncoder \<Rightarrow> error + u64" where
  "ca_encoder_current_payload_offset e =
     (case ca_encoder_current_node e of
        None \<Rightarrow> Inl EUNATCH
      | Some n \<Rightarrow>
          if \<not> S_ISREG (st_mode (stat n)) \<and> \<not> S_ISBLK (st_mode (stat n)) then Inl EISDIR
          else Inr (payload_offset e))"

definition ca_encoder_current_archive_offset :: "CaEncoder \<Rightarrow> u64" where
  "ca_encoder_current_archive_offset e = archive_offset e"

subsection \<open>The consumer\<close>

text \<open>
  The consumer of the encoder calls \<^verbatim>\<open>ca_encoder_step\<close> and then \<^verbatim>\<open>ca_encoder_get_data\<close>,
  again and again. \<open>pull\<close> runs \<open>k\<close> such rounds, all of them successful, and collects
  what each \<^verbatim>\<open>ca_encoder_get_data\<close> handed back; it is \<open>None\<close> when a call fails.
  \<open>pull_then_step\<close> adds the step that follows the last round.
\<close>

fun pull ::
  "CaFormat \<Rightarrow> 'w os \<Rightarrow> nat \<Rightarrow> CaEncoder \<Rightarrow> 'w
     \<Rightarrow> ((int \<times> byte list option \<times> nat) list \<times> CaEncoder \<times> 'w) option" where
  "pull c os 0 e w = Some ([], e, w)"
| "pull c os (Suc k) e w =
     (case ca_encoder_step c os e w of
        (Inl err, e1, w1) \<Rightarrow> None
      | (Inr r, e1, w1) \<Rightarrow>
          (case ca_encoder_get_data c os e1 w1 of
             (Inl err, e2, w2) \<Rightarrow> None
           | (Inr d, e2, w2) \<Rightarrow>
               (case pull c os k e2 w2 of
                  None \<Rightarrow> None
                | Some (ds, e3, w3) \<Rightarrow> Some (d # ds, e3, w3))))"

definition pull_then_step ::
  "CaFormat \<Rightarrow> 'w os \<Rightarrow> nat \<Rightarrow> CaEncoder \<Rightarrow> 'w
     \<Rightarrow> ((int \<times> byte list option \<times> nat) list \<times> (error + step_result) \<times> CaEncoder \<times> 'w) option"
  where
  "pull_then_step c os k e w =
     (case pull c os k e w of
        None \<Rightarrow> None
      | Some (ds, e', w') \<Rightarrow> Some (ds, ca_encoder_step c os e' w'))"

text \<open>The sizes handed back, and their sum.\<close>

definition chunk_sizes :: "(int \<times> byte list option \<times> nat) list \<Rightarrow> nat list" where
  "chunk_sizes ds = map (\<lambda>d. snd (snd d)) ds"

subsection \<open>A sample registry and sample worlds\<close>

text \<open>
  Concrete values for evaluating the model: a registry with one bit per feature flag, and
  worlds whose state is the list of the descriptors closed so far. In \<open>test_os\<close> every
  descriptor is a directory with the given raw listing, every child that
  \<^verbatim>\<open>fstatat\<close> is asked about has the given stat, every link points to "target",
  memory never runs out, and closing a descriptor that was closed before is refused
  with \<^verbatim>\<open>EBADF\<close>.
\<close>

definition test_format :: CaFormat where
  "test_format =
     \<lparr>CA_FORMAT_FEATURE_FLAGS_MAX = 0xFFF, CA_FORMAT_WITH_BEST = 0xF46,
      CA_FORMAT_WITH_UID_GID_16BIT = 0x1, CA_FORMAT_WITH_UID_GID_32BIT = 0x2,
      CA_FORMAT_WITH_TIMES_NSEC = 0x4, CA_FORMAT_WITH_TIMES_USEC = 0x8,
      CA_FORMAT_WITH_TIMES_SEC = 0x10, CA_FORMAT_WITH_TIMES_2SEC = 0x20,
      CA_FORMAT_WITH_PERMISSIONS = 0x40, CA_FORMAT_WITH_READONLY = 0x80,
      CA_FORMAT_WITH_SYMLINKS = 0x100, CA_FORMAT_WITH_DEVICE_NODES = 0x200,
      CA_FORMAT_WITH_FIFOS = 0x400, CA_FORMAT_WITH_SOCKETS = 0x800,
      CA_FORMAT_HELLO = 0x3BDD0B1C1EA14AD1, CA_FORMAT_HELLO_UUID_PART2 = 0x9A213A8F3CCC1A79,
      CA_FORMAT_ENTRY = 0x1396FABCEA5BBB51, CA_FORMAT_SYMLINK = 0x664A6FB6830E0D6C,
      CA_FORMAT_DEVICE = 0xAC3DACE369DFE643, CA_FORMAT_PAYLOAD = 0x8B9E1D93D6DCFFC9,
      CA_FORMAT_GOODBYE = 0xDFD35C5E8327C403, NODES_MAX = 256, BUFFER_SIZE = 16384\<rparr>"

definition dir_stat :: struct_stat where
  "dir_stat = \<lparr>st_mode = 0x41ED, st_size = 4096, st_uid = 1000, st_gid = 100,
                st_mtim_sec = 1234567890, st_mtim_nsec = 0, st_rdev = 0\<rparr>"

definition link_stat :: struct_stat where
  "link_stat = \<lparr>st_mode = 0xA1ED, st_size = 6, st_uid = 1000, st_gid = 100,
                 st_mtim_sec = 1234567890, st_mtim_nsec = 123456789, st_rdev = 0\<rparr>"

definition test_os :: "dirent list \<Rightarrow> struct_stat \<Rightarrow> (int list) os" where
  "test_os listing child_stat =
     \<lparr>sys_fstat = (\<lambda>f w. (Inr dir_stat, w)),
      sys_fstatat = (\<lambda>f name w. (Inr child_stat, w)),
      sys_openat = (\<lambda>f name d w. (Inl (ERRNO 2), w)),
      sys_readdir = (\<lambda>f w. (Inr listing, w)),
      sys_readlinkat = (\<lambda>f name w. (Inr [0x74, 0x61, 0x72, 0x67, 0x65, 0x74], w)),
      sys_blkgetsize = (\<lambda>f w. (Inl (ERRNO 25), w)),
      sys_read = (\<lambda>f k w. (Inr [], w)),
      sys_close = (\<lambda>f w. if f \<in> set w then (Inl EBADF, w) else (Inr (), w @ [f])),
      sys_malloc = (\<lambda>k w. (True, w))\<rparr>"

text \<open>The entries "." and ".." that every directory lists, and a child named "l".\<close>

definition dots :: "dirent list" where
  "dots = [\<lparr>d_name = [0x2E], d_type = 4\<rparr>, \<lparr>d_name = [0x2E, 0x2E], d_type = 4\<rparr>]"

definition child_entry :: dirent where
  "child_entry = \<lparr>d_name = [0x6C], d_type = 10\<rparr>"

text \<open>
  \<open>at_entry flags st\<close> is the encoder, with its world, after the flags were set, the base
  descriptor 3 was set on a directory whose only child "l" has the stat \<open>st\<close>, and two
  steps were taken: it is in the state \<^verbatim>\<open>CA_ENCODER_ENTRY\<close> for that child.
\<close>

definition at_base :: "u64 \<Rightarrow> struct_stat \<Rightarrow> CaEncoder \<times> int list" where
  "at_base flags st =
     snd (ca_encoder_set_base_fd (test_os (dots @ [child_entry]) st)
            (snd (ca_encoder_set_feature_flags test_format (ca_encoder_new test_format) flags))
            3 [])"

definition at_hello :: "u64 \<Rightarrow> struct_stat \<Rightarrow> CaEncoder \<times> int list" where
  "at_hello flags st =
     snd (ca_encoder_step test_format (test_os (dots @ [child_entry]) st)
            (fst (at_base flags st)) (snd (at_base flags st)))"

definition at_entry :: "u64 \<Rightarrow> struct_stat \<Rightarrow> CaEncoder \<times> int list" where
  "at_entry flags st =
     snd (ca_encoder_step test_format (test_os (dots @ [child_entry]) st)
            (fst (at_hello flags st)) (snd (at_hello flags st)))"

text \<open>The encoder on an empty directory at descriptor 3, with the default flags.\<close>

definition empty_root :: "CaEncoder \<times> int list" where
  "empty_root =
     snd (ca_encoder_set_base_fd (test_os dots dir_stat) (ca_encoder_new test_format) 3 [])"

text \<open>
  The same encoder after its first step, and after one and after two calls of
  \<^verbatim>\<open>ca_encoder_get_data\<close> that follow that step.
\<close>

definition empty_hello :: "CaEncoder \<times> int list" where
  "empty_hello =
     snd (ca_encoder_step test_format (test_os dots dir_stat) (fst empty_root) (snd empty_root))"

definition empty_hello_read :: "CaEncoder \<times> int list" where
  "empty_hello_read =
     snd (ca_encoder_get_data test_format (test_os dots dir_stat)
            (fst empty_hello) (snd empty_hello))"

definition empty_hello_read_twice :: "CaEncoder \<times> int list" where
  "empty_hello_read_twice =
     snd (ca_encoder_get_data test_format (test_os dots dir_stat)
            (fst empty_hello_read) (snd empty_hello_read))"

text \<open>
  A world in which every descriptor is an empty regular file, and the encoder on such a
  file at descriptor 3, before any step.
\<close>

definition file_stat :: struct_stat where
  "file_stat = \<lparr>st_mode = 0x81A4, st_size = 0, st_uid = 1000, st_gid = 100,
                 st_mtim_sec = 1234567890, st_mtim_nsec = 0, st_rdev = 0\<rparr>"

definition empty_file_os :: "(int list) os" where
  "empty_file_os = (test_os [] file_stat)\<lparr>sys_fstat := (\<lambda>f w. (Inr file_stat, w))\<rparr>"

definition empty_file_root :: "CaEncoder \<times> int list" where
  "empty_file_root = snd (ca_encoder_set_base_fd empty_file_os (ca_encoder_new test_format) 3 [])"

subsection \<open>Offsets\<close>

text \<open>
  \<open>offsets_kept e e'\<close>: from \<open>e\<close> to \<open>e'\<close> the archive offset did not move, the payload
  offset did not move or was reset, and no chunk is waiting to be counted.
\<close>

definition offsets_kept :: "CaEncoder \<Rightarrow> CaEncoder \<Rightarrow> bool" where
  "offsets_kept e e' \<longleftrightarrow>
     archive_offset e' = archive_offset e
     \<and> (payload_offset e' = 0 \<or> payload_offset e' = payload_offset e)
     \<and> step_size e' = 0"

subsection \<open>Closing a list of descriptors\<close>

text \<open>
  \<open>close_each os fs w\<close>: the descriptors \<open>fs\<close> are closed one after the other. At the
  first one for which \<^verbatim>\<open>close\<close> reports \<^verbatim>\<open>EBADF\<close> the process is aborted, and the
  descriptors after it are not closed.
\<close>

fun close_each :: "'w os \<Rightarrow> int list \<Rightarrow> 'w \<Rightarrow> (error + unit) \<times> 'w" where
  "close_each os [] w = (Inr (), w)"
| "close_each os (f # fs) w =
     (if fst (sys_close os f w) = Inl EBADF then (Inl ABORT, snd (sys_close os f w))
      else close_each os fs (snd (sys_close os f w)))"

text \<open>An encoder whose stack holds a root at descriptor 3 and a child at descriptor 4.\<close>

definition two_nodes :: CaEncoder where
  "two_nodes =
     (ca_encoder_new test_format)
       \<lparr>nodes := [\<lparr>fd = 3, stat = dir_stat, dirents = None, dirent_idx = 0,
                   symlink_target = None, device_size = UINT64_MAX\<rparr>,
                  \<lparr>fd = 4, stat = file_stat, dirents = None, dirent_idx = 0,
                   symlink_target = None, device_size = UINT64_MAX\<rparr>]\<rparr>"

section \<open>Properties\<close>

subsection \<open>Little-endian fields\<close>

lemma byte_field: "(ucast (ucast (w::u64) :: byte) :: u64) = take_bit 8 w"
  by (rule bit_word_eqI) (auto simp add: bit_simps)

lemma le64_nth:
  "le64 v ! 0 = ucast v" "le64 v ! Suc 0 = ucast (drop_bit 8 v)" "le64 v ! 2 = ucast (drop_bit 16 v)"
  "le64 v ! 3 = ucast (drop_bit 24 v)" "le64 v ! 4 = ucast (drop_bit 32 v)"
  "le64 v ! 5 = ucast (drop_bit 40 v)" "le64 v ! 6 = ucast (drop_bit 48 v)"
  "le64 v ! 7 = ucast (drop_bit 56 v)"
  by (simp_all add: le64_def)

lemma length_le64 [simp]: "length (le64 v) = 8" by (simp add: le64_def)

lemma read_le64_unfold: "read_le64 (le64 v @ rest) =
     take_bit 8 v OR push_bit 8 (take_bit 8 (drop_bit 8 v)) OR push_bit 16 (take_bit 8 (drop_bit 16 v))
     OR push_bit 24 (take_bit 8 (drop_bit 24 v)) OR push_bit 32 (take_bit 8 (drop_bit 32 v))
     OR push_bit 40 (take_bit 8 (drop_bit 40 v)) OR push_bit 48 (take_bit 8 (drop_bit 48 v))
     OR push_bit 56 (take_bit 8 (drop_bit 56 v))"
    unfolding read_le64_def
    by (simp add: nth_append le64_nth byte_field)

lemma le64_join:
  "take_bit 8 v OR push_bit 8 (take_bit 8 (drop_bit 8 v)) OR push_bit 16 (take_bit 8 (drop_bit 16 v))
     OR push_bit 24 (take_bit 8 (drop_bit 24 v)) OR push_bit 32 (take_bit 8 (drop_bit 32 v))
     OR push_bit 40 (take_bit 8 (drop_bit 40 v)) OR push_bit 48 (take_bit 8 (drop_bit 48 v))
     OR push_bit 56 (take_bit 8 (drop_bit 56 v)) = (v :: u64)"
proof (rule bit_word_eqI)
  fix n assume "n < LENGTH(64)"
  then have "n < 64" by simp
  then consider "n < 8" | "8 \<le> n \<and> n < 16" | "16 \<le> n \<and> n < 24" | "24 \<le> n \<and> n < 32"
    | "32 \<le> n \<and> n < 40" | "40 \<le> n \<and> n < 48" | "48 \<le> n \<and> n < 56" | "56 \<le> n \<and> n < 64"
    by linarith
  then show "bit (take_bit 8 v OR push_bit 8 (take_bit 8 (drop_bit 8 v)) OR push_bit 16 (take_bit 8 (drop_bit 16 v))
     OR push_bit 24 (take_bit 8 (drop_bit 24 v)) OR push_bit 32 (take_bit 8 (drop_bit 32 v))
     OR push_bit 40 (take_bit 8 (drop_bit 40 v)) OR push_bit 48 (take_bit 8 (drop_bit 48 v))
     OR push_bit 56 (take_bit 8 (drop_bit 56 v))) n = bit v n"
    by cases (auto simp add: bit_or_iff bit_push_bit_iff bit_take_bit_iff bit_drop_bit_eq)
qed

lemma read_le64_le64 [simp]: "read_le64 (le64 v @ rest) = v"
  by (simp only: read_le64_unfold le64_join)

text \<open>The fields of an entry chunk, at their offsets.\<close>

lemma entry_bytes_mode: "read_le64 (drop 16 (entry_bytes c de child mode uid gid mtime @ rest)) = mode"
  by (simp add: entry_bytes_def CaFormatHeader_def)



lemma entry_bytes_mtime: "read_le64 (drop 40 (entry_bytes c de child mode uid gid mtime @ rest)) = mtime"
  by (simp add: entry_bytes_def CaFormatHeader_def)


lemma get_entry_data_built:
  assumes "buffer e = []" "ca_encoder_node_current_dirent n = Some de"
    "ca_encoder_current_child_node e = Some child"
    "fst (ca_encoder_get_entry_data c os e n w) = Inr r"
  shows "entry_rejection c e child = None"
    and "\<exists>rest. buffer (fst (snd (ca_encoder_get_entry_data c os e n w))) =
     entry_bytes c de child (entry_mode c (feature_flags e) (st_mode (stat child)))
       (entry_uid c (feature_flags e) (stat child))
       (entry_gid c (feature_flags e) (stat child))
       (entry_mtime (time_granularity e) (stat child)) @ rest"
  using assms unfolding ca_encoder_get_entry_data_def buffer_write_def
  by (auto split: option.splits prod.splits bool.splits)

lemma get_entry_data_rejected:
  assumes "buffer e = []" "ca_encoder_node_current_dirent n = Some de"
    "ca_encoder_current_child_node e = Some child" "entry_rejection c e child = Some err"
  shows "ca_encoder_get_entry_data c os e n w = (Inl err, e, w)"
  using assms unfolding ca_encoder_get_entry_data_def by simp

lemma ucast_u32_u64_inj: "(ucast (a :: u32) :: u64) = ucast b \<longleftrightarrow> a = b"
proof
  assume "(ucast a :: u64) = ucast b"
  then have "(ucast (ucast a :: u64) :: u32) = ucast (ucast b :: u64)" by simp
  then show "a = b" by (simp add: ucast_up_ucast_id is_up)
qed simp

lemma mode_is_ucast: "mode_is (ucast m) ty \<longleftrightarrow> m AND S_IFMT = ty"
proof -
  have "(ucast m :: u64) AND ucast S_IFMT = ucast (m AND S_IFMT)"
    by (simp add: unsigned_and_eq)
  then show ?thesis by (simp add: mode_is_def ucast_u32_u64_inj)
qed

lemma entry_mode_symlink:
  assumes "S_ISLNK m"
  shows "entry_mode c flags m =
     (if flags AND CA_FORMAT_WITH_PERMISSIONS c \<noteq> 0 then ucast S_IFLNK OR 511
      else if flags AND CA_FORMAT_WITH_READONLY c \<noteq> 0 then ucast S_IFLNK OR 438
      else ucast S_IFLNK)"
proof -
  have lnk: "mode_is (ucast m) S_IFLNK" using assms by (simp add: mode_is_ucast S_ISLNK_def)
  have a: "(ucast S_IFLNK OR 511 :: u64) AND (ucast S_IFMT OR 4095) = ucast S_IFLNK OR 511"
    by (simp add: S_IFLNK_def S_IFMT_def)
  have b: "(ucast S_IFLNK OR 511 :: u64) AND ucast S_IFMT = ucast S_IFLNK"
    by (simp add: S_IFLNK_def S_IFMT_def)
  have d: "(ucast S_IFLNK OR 511 :: u64) AND 146 \<noteq> 0"
    by (simp add: S_IFLNK_def)
  have e: "\<not> mode_is (ucast S_IFLNK OR 511) S_IFDIR"
    by (simp add: mode_is_def S_IFLNK_def S_IFMT_def S_IFDIR_def)
  show ?thesis
    unfolding entry_mode_def Let_def using lnk by (simp add: a b d e)
qed

lemma unat_entry_mtime:
  "unat (entry_mtime g st) =
     (unat (timespec_to_nsec (st_mtim_sec st) (st_mtim_nsec st)) div unat g) * unat g"
proof -
  let ?m = "timespec_to_nsec (st_mtim_sec st) (st_mtim_nsec st)"
  have "unat (?m div g) * unat g \<le> unat ?m" by (simp add: unat_div)
  also have "\<dots> < 2 ^ LENGTH(64)" by (rule unsigned_less)
  finally have "unat ((?m div g) * g) = unat (?m div g) * unat g"
    by (simp only: unat_mult_lem)
  then show ?thesis by (simp add: entry_mtime_def unat_div)
qed

lemma dir_not_payload: "S_ISDIR m \<Longrightarrow> \<not> S_ISREG m \<and> \<not> S_ISBLK m"
  by (auto simp add: S_ISDIR_def S_ISREG_def S_ISBLK_def S_IFDIR_def S_IFREG_def S_IFBLK_def)

subsection \<open>Feature flags\<close>

text \<open>
  Claim C3 says that a flag set without any of the four time flags leaves the granularity
  at one nanosecond. The code starts the local \<^verbatim>\<open>granularity\<close> at 0 and stores it
  unchanged: with the flag set 0 the call succeeds and the granularity is 0. With only
  the symlink flag set the same happens, and building the entry of the first child then
  divides by zero.
\<close>

theorem set_feature_flags_without_time_flag:
  "fst (ca_encoder_set_feature_flags c (ca_encoder_new c) 0) = Inr 0
   \<and> time_granularity (snd (ca_encoder_set_feature_flags c (ca_encoder_new c) 0)) = 0
   \<and> time_granularity (fst (at_entry 0x100 link_stat)) = 0
   \<and> fst (ca_encoder_get_data test_format (test_os (dots @ [child_entry]) link_stat)
            (fst (at_entry 0x100 link_stat)) (snd (at_entry 0x100 link_stat))) = Inl ABORT"
proof -
  have "fst (ca_encoder_set_feature_flags c (ca_encoder_new c) 0) = Inr 0
   \<and> time_granularity (snd (ca_encoder_set_feature_flags c (ca_encoder_new c) 0)) = 0"
    by (simp add: ca_encoder_set_feature_flags_def normalize_feature_flags_def)
  moreover have "time_granularity (fst (at_entry 0x100 link_stat)) = 0" by code_simp
  moreover have "fst (ca_encoder_get_data test_format (test_os (dots @ [child_entry]) link_stat)
            (fst (at_entry 0x100 link_stat)) (snd (at_entry 0x100 link_stat))) = Inl ABORT"
    by code_simp
  ultimately show ?thesis by blast
qed

text \<open>
  Claim C5 says that setting the flags after the first step fails and changes nothing.
  It does not fail: after one step on a directory, asking for second granularity returns
  0 and the granularity goes from 1 to 1000000000.
\<close>

theorem set_feature_flags_after_first_step:
  "fst (ca_encoder_step test_format (test_os (dots @ [child_entry]) link_stat)
          (fst (at_base 0xF46 link_stat)) (snd (at_base 0xF46 link_stat))) = Inr CA_ENCODER_DATA
   \<and> fst (ca_encoder_set_feature_flags test_format (fst (at_hello 0xF46 link_stat)) 0x10) = Inr 0
   \<and> time_granularity (fst (at_hello 0xF46 link_stat)) = 1
   \<and> time_granularity (snd (ca_encoder_set_feature_flags test_format
         (fst (at_hello 0xF46 link_stat)) 0x10)) = 1000000000"
  by code_simp

text \<open>
  Claim C5, amended: \<^verbatim>\<open>ca_encoder_set_feature_flags\<close> does not look at the state of the
  encoder. Whatever the encoder, a flag set with a bit outside
  \<^verbatim>\<open>CA_FORMAT_FEATURE_FLAGS_MAX\<close> fails with \<^verbatim>\<open>EOPNOTSUPP\<close> and changes nothing, and any
  other flag set succeeds and replaces the flags and the granularity by the values that
  the same call gives on a new encoder.
\<close>

theorem set_feature_flags_any_state:
  "(flags AND NOT (CA_FORMAT_FEATURE_FLAGS_MAX c) \<noteq> 0 \<longrightarrow>
      ca_encoder_set_feature_flags c e flags = (Inl EOPNOTSUPP, e))
   \<and> (flags AND NOT (CA_FORMAT_FEATURE_FLAGS_MAX c) = 0 \<longrightarrow>
      fst (ca_encoder_set_feature_flags c e flags) = Inr 0
      \<and> snd (ca_encoder_set_feature_flags c e flags) =
          e\<lparr>feature_flags :=
               feature_flags (snd (ca_encoder_set_feature_flags c (ca_encoder_new c) flags)),
            time_granularity :=
               time_granularity (snd (ca_encoder_set_feature_flags c (ca_encoder_new c) flags))\<rparr>)"
  by (simp add: ca_encoder_set_feature_flags_def)

theorem set_feature_flags_any_state_witness:
  "ca_encoder_set_feature_flags test_format (fst (at_hello 0xF46 link_stat)) 0x1000
     = (Inl EOPNOTSUPP, fst (at_hello 0xF46 link_stat))
   \<and> fst (ca_encoder_set_feature_flags test_format (fst (at_hello 0xF46 link_stat)) 0x30) = Inr 0
   \<and> snd (ca_encoder_set_feature_flags test_format (fst (at_hello 0xF46 link_stat)) 0x30)
       = (fst (at_hello 0xF46 link_stat))\<lparr>feature_flags := 0x10, time_granularity := 1000000000\<rparr>"
proof -
  have a: "(0x1000 :: u64) AND NOT (CA_FORMAT_FEATURE_FLAGS_MAX test_format) \<noteq> 0" by code_simp
  have b: "(0x30 :: u64) AND NOT (CA_FORMAT_FEATURE_FLAGS_MAX test_format) = 0" by code_simp
  have f: "feature_flags (snd (ca_encoder_set_feature_flags test_format
             (ca_encoder_new test_format) 0x30)) = 0x10"
    by code_simp
  have g: "time_granularity (snd (ca_encoder_set_feature_flags test_format
             (ca_encoder_new test_format) 0x30)) = 1000000000"
    by code_simp
  from set_feature_flags_any_state
         [where flags = "0x1000" and c = test_format and e = "fst (at_hello 0xF46 link_stat)"] a
  have 1: "ca_encoder_set_feature_flags test_format (fst (at_hello 0xF46 link_stat)) 0x1000
     = (Inl EOPNOTSUPP, fst (at_hello 0xF46 link_stat))" by blast
  from set_feature_flags_any_state
         [where flags = "0x30" and c = test_format and e = "fst (at_hello 0xF46 link_stat)"] b
  have 2: "fst (ca_encoder_set_feature_flags test_format (fst (at_hello 0xF46 link_stat)) 0x30) = Inr 0
      \<and> snd (ca_encoder_set_feature_flags test_format (fst (at_hello 0xF46 link_stat)) 0x30) =
          (fst (at_hello 0xF46 link_stat))\<lparr>feature_flags :=
               feature_flags (snd (ca_encoder_set_feature_flags test_format
                                     (ca_encoder_new test_format) 0x30)),
            time_granularity :=
               time_granularity (snd (ca_encoder_set_feature_flags test_format
                                        (ca_encoder_new test_format) 0x30))\<rparr>"
    by blast
  from 1 2 show ?thesis by (simp only: f g)
qed

subsection \<open>Descriptors\<close>

lemma free_nodes_close_each:
  "free_nodes os ns w = close_each os (filter (\<lambda>f. 3 \<le> f) (map fd ns)) w"
proof (induction ns arbitrary: w)
  case Nil
  then show ?case by simp
next
  case (Cons n ns)
  show ?case
  proof (cases "3 \<le> fd n")
    case True
    then have "0 \<le> fd n" by simp
    with True Cons.IH show ?thesis
      by (cases "sys_close os (fd n) w")
         (simp add: ca_encoder_node_free_def safe_close_def)
  next
    case False
    with Cons.IH show ?thesis by (simp add: ca_encoder_node_free_def)
  qed
qed

lemma close_each_returns:
  "fst (close_each os fs w) = Inr () \<Longrightarrow>
     snd (close_each os fs w) = fold (\<lambda>f w. snd (sys_close os f w)) fs w"
  by (induction fs arbitrary: w) (simp_all split: if_splits)

text \<open>
  Claim C4 says that destroying the encoder never closes the root descriptor. With the
  root descriptor 3 it does: the descriptor is the one close that the world records.
\<close>

theorem unref_closes_root_descriptor:
  "fst (ca_encoder_set_base_fd (test_os dots dir_stat) (ca_encoder_new test_format) 3 []) = Inr 0
   \<and> ca_encoder_unref (test_os dots dir_stat) (fst empty_root) (snd empty_root) = (Inr (), [3])"
  by code_simp

text \<open>
  Claim C4, amended: destroying the encoder closes the descriptors of its nodes that are
  3 or greater, from the root upwards, and no other; the root is treated like every
  other node, so a root descriptor is closed unless it is 0, 1 or 2. When \<^verbatim>\<open>close\<close>
  reports \<^verbatim>\<open>EBADF\<close> for one of them the process is aborted there and the nodes after
  it are not closed; when the call returns, every one of them was closed.
\<close>

theorem unref_closes_from_three:
  "ca_encoder_unref os e w = close_each os (filter (\<lambda>f. 3 \<le> f) (map fd (nodes e))) w
   \<and> (fst (ca_encoder_unref os e w) = Inr () \<longrightarrow>
        snd (ca_encoder_unref os e w)
          = fold (\<lambda>f w. snd (sys_close os f w)) (filter (\<lambda>f. 3 \<le> f) (map fd (nodes e))) w)
   \<and> (ca_encoder_set_base_fd os e0 fdv w0 = (Inr 0, e1, w1) \<longrightarrow>
        ca_encoder_unref os e1 w1
          = (if 3 \<le> fdv
             then (if fst (sys_close os fdv w1) = Inl EBADF then Inl ABORT else Inr (),
                   snd (sys_close os fdv w1))
             else (Inr (), w1)))"
proof -
  have a: "ca_encoder_unref os e w = close_each os (filter (\<lambda>f. 3 \<le> f) (map fd (nodes e))) w"
    for e :: CaEncoder and w :: 'a
    by (simp add: ca_encoder_unref_def free_nodes_close_each)
  have b: "fst (ca_encoder_unref os e w) = Inr () \<longrightarrow>
        snd (ca_encoder_unref os e w)
          = fold (\<lambda>f w. snd (sys_close os f w)) (filter (\<lambda>f. 3 \<le> f) (map fd (nodes e))) w"
    by (simp only: a) (blast intro: close_each_returns)
  have c: "ca_encoder_unref os e1 w1
          = (if 3 \<le> fdv
             then (if fst (sys_close os fdv w1) = Inl EBADF then Inl ABORT else Inr (),
                   snd (sys_close os fdv w1))
             else (Inr (), w1))"
    if h: "ca_encoder_set_base_fd os e0 fdv w0 = (Inr 0, e1, w1)"
  proof -
    from h have "map fd (nodes e1) = [fdv]"
      by (auto simp add: ca_encoder_set_base_fd_def split: if_splits prod.splits sum.splits)
    then show ?thesis by (simp add: a)
  qed
  from a b c show ?thesis by blast
qed

theorem unref_closes_from_three_witness:
  "ca_encoder_unref (test_os dots dir_stat)
     (fst (snd (ca_encoder_set_base_fd (test_os dots dir_stat) (ca_encoder_new test_format) 2 []))) []
     = (Inr (), [])
   \<and> ca_encoder_unref (test_os dots dir_stat)
     (fst (snd (ca_encoder_set_base_fd (test_os dots dir_stat) (ca_encoder_new test_format) 5 []))) []
     = (Inr (), [5])
   \<and> ca_encoder_unref (test_os dots dir_stat) two_nodes [] = (Inr (), [3, 4])
   \<and> snd (ca_encoder_unref (test_os dots dir_stat) two_nodes []) = [3, 4]
   \<and> ca_encoder_unref (test_os dots dir_stat) two_nodes [3] = (Inl ABORT, [3])"
proof -
  let ?os = "test_os dots dir_stat"
  let ?e2 = "fst (snd (ca_encoder_set_base_fd ?os (ca_encoder_new test_format) 2 []))"
  let ?e5 = "fst (snd (ca_encoder_set_base_fd ?os (ca_encoder_new test_format) 5 []))"
  have h2: "ca_encoder_set_base_fd ?os (ca_encoder_new test_format) 2 [] = (Inr 0, ?e2, [])"
    by code_simp
  have h5: "ca_encoder_set_base_fd ?os (ca_encoder_new test_format) 5 [] = (Inr 0, ?e5, [])"
    by code_simp
  have c5: "sys_close ?os 5 [] = (Inr (), [5])" by (simp add: test_os_def)
  have fds: "filter (\<lambda>f. 3 \<le> f) (map fd (nodes two_nodes)) = [3, 4]"
    by (simp add: two_nodes_def)
  have k1: "close_each ?os [3, 4] [] = (Inr (), [3, 4])" by (simp add: test_os_def)
  have k2: "close_each ?os [3, 4] [3] = (Inl ABORT, [3])" by (simp add: test_os_def)
  have r: "fst (ca_encoder_unref ?os two_nodes []) = Inr ()" by code_simp
  have f: "fold (\<lambda>f w. snd (sys_close ?os f w)) [3, 4] [] = [3, 4]" by (simp add: test_os_def)
  note t = unref_closes_from_three
  from t [THEN conjunct2, THEN conjunct2, THEN mp, OF h2]
  have "ca_encoder_unref ?os ?e2 [] = (Inr (), [])" by simp
  moreover
  from t [THEN conjunct2, THEN conjunct2, THEN mp, OF h5]
  have "ca_encoder_unref ?os ?e5 [] = (Inr (), [5])" by (simp add: c5)
  moreover
  from t [THEN conjunct1, of ?os two_nodes "[]"]
  have "ca_encoder_unref ?os two_nodes [] = (Inr (), [3, 4])" by (simp only: fds k1)
  moreover
  from t [THEN conjunct2, THEN conjunct1, THEN mp, OF r]
  have "snd (ca_encoder_unref ?os two_nodes []) = [3, 4]" by (simp only: fds f)
  moreover
  from t [THEN conjunct1, of ?os two_nodes "[3]"]
  have "ca_encoder_unref ?os two_nodes [3] = (Inl ABORT, [3])" by (simp only: fds k2)
  ultimately show ?thesis by blast
qed

subsection \<open>Entries\<close>




lemma entry_rejection_kind:
  assumes "(S_ISLNK (st_mode (stat child)) \<and> feature_flags e AND CA_FORMAT_WITH_SYMLINKS c = 0)
     \<or> ((S_ISBLK (st_mode (stat child)) \<or> S_ISCHR (st_mode (stat child)))
           \<and> feature_flags e AND CA_FORMAT_WITH_DEVICE_NODES c = 0)
     \<or> (S_ISFIFO (st_mode (stat child)) \<and> feature_flags e AND CA_FORMAT_WITH_FIFOS c = 0)
     \<or> (S_ISSOCK (st_mode (stat child)) \<and> feature_flags e AND CA_FORMAT_WITH_SOCKETS c = 0)"
  shows "entry_rejection c e child =
     Some (if st_uid (stat child) = UINT16_MAX \<or> st_uid (stat child) = UINT32_MAX
              \<or> st_gid (stat child) = UINT16_MAX \<or> st_gid (stat child) = UINT32_MAX
           then EINVAL else EPROTONOSUPPORT)"
  using assms unfolding entry_rejection_def Let_def by (elim disjE conjE) simp_all

text \<open>
  Claim C8 (entry_mtime_quantized): when an entry is built, the \<^verbatim>\<open>mtime\<close> field of the
  chunk (at offset 40), read as an unsigned number, is the child's modification time
  \<^verbatim>\<open>st_mtim.tv_sec * 1000000000 + st_mtim.tv_nsec\<close>, as the code computes it in
  \<^verbatim>\<open>uint64_t\<close>, divided by the granularity and multiplied by it again, for each of the
  four granularities. When the seconds and nanoseconds fit 64 bits together, this is
  the number of nanoseconds since the epoch, divided and multiplied.
\<close>

theorem entry_mtime_quantized:
  assumes "buffer e = []" "ca_encoder_node_current_dirent n = Some de"
    "ca_encoder_current_child_node e = Some child"
    "time_granularity e \<in> {1, 1000, 1000000000, 2000000000}"
    "fst (ca_encoder_get_entry_data c os e n w) = Inr r"
  shows "unat (read_le64 (drop 40 (buffer (fst (snd (ca_encoder_get_entry_data c os e n w))))))
         = (unat (st_mtim_sec (stat child) * 1000000000 + st_mtim_nsec (stat child))
              div unat (time_granularity e)) * unat (time_granularity e)
       \<and> (unat (st_mtim_sec (stat child)) * 1000000000 + unat (st_mtim_nsec (stat child)) < 2 ^ 64
            \<longrightarrow>
          unat (read_le64 (drop 40 (buffer (fst (snd (ca_encoder_get_entry_data c os e n w))))))
            = ((unat (st_mtim_sec (stat child)) * 1000000000 + unat (st_mtim_nsec (stat child)))
                 div unat (time_granularity e)) * unat (time_granularity e))"
proof -
  let ?s = "st_mtim_sec (stat child)" and ?n = "st_mtim_nsec (stat child)"
  from get_entry_data_built(2) [OF assms(1,2,3,5)]
  obtain rest where "buffer (fst (snd (ca_encoder_get_entry_data c os e n w))) =
     entry_bytes c de child (entry_mode c (feature_flags e) (st_mode (stat child)))
       (entry_uid c (feature_flags e) (stat child))
       (entry_gid c (feature_flags e) (stat child))
       (entry_mtime (time_granularity e) (stat child)) @ rest" by blast
  then have field: "unat (read_le64 (drop 40 (buffer (fst (snd (ca_encoder_get_entry_data c os e n w))))))
         = (unat (?s * 1000000000 + ?n) div unat (time_granularity e)) * unat (time_granularity e)"
    by (simp only: entry_bytes_mtime unat_entry_mtime timespec_to_nsec_def)
  have number: "unat (?s * 1000000000 + ?n) = unat ?s * 1000000000 + unat ?n"
    if b: "unat ?s * 1000000000 + unat ?n < 2 ^ 64"
  proof -
    have t: "unat (1000000000 :: u64) = 1000000000" by simp
    from b have "unat ?s * unat (1000000000 :: u64) < 2 ^ LENGTH(64)" by (simp add: t)
    then have m: "unat (?s * 1000000000) = unat ?s * unat (1000000000 :: u64)"
      by (simp only: unat_mult_lem)
    with b have "unat (?s * 1000000000) + unat ?n < 2 ^ LENGTH(64)" by (simp add: t)
    then have "unat (?s * 1000000000 + ?n) = unat (?s * 1000000000) + unat ?n"
      by (simp only: unat_add_lem)
    with m show ?thesis by (simp add: t)
  qed
  from field number show ?thesis by simp
qed

theorem entry_mtime_quantized_witness:
  "unat (read_le64 (drop 40 (buffer (fst (snd (ca_encoder_get_entry_data test_format
      (test_os (dots @ [child_entry]) link_stat) (fst (at_entry 0xF52 link_stat))
      (nodes (fst (at_entry 0xF52 link_stat)) ! 0) (snd (at_entry 0xF52 link_stat))))))))
   = 1234567890000000000
   \<and> unat (read_le64 (drop 40 (buffer (fst (snd (ca_encoder_get_entry_data test_format
      (test_os (dots @ [child_entry]) link_stat) (fst (at_entry 0xF4A link_stat))
      (nodes (fst (at_entry 0xF4A link_stat)) ! 0) (snd (at_entry 0xF4A link_stat))))))))
   = 1234567890123456000"
proof -
  let ?os = "test_os (dots @ [child_entry]) link_stat"
  let ?e = "fst (at_entry 0xF52 link_stat)"
  let ?w = "snd (at_entry 0xF52 link_stat)"
  let ?e' = "fst (at_entry 0xF4A link_stat)"
  let ?w' = "snd (at_entry 0xF4A link_stat)"
  have h1: "buffer ?e = []" by code_simp
  have h2: "ca_encoder_node_current_dirent (nodes ?e ! 0) = Some child_entry" by code_simp
  have h3: "ca_encoder_current_child_node ?e = Some (nodes ?e ! 1)" by code_simp
  have h4: "time_granularity ?e \<in> {1, 1000, 1000000000, 2000000000}" by code_simp
  have h5: "fst (ca_encoder_get_entry_data test_format ?os ?e (nodes ?e ! 0) ?w) = Inr 1"
    by code_simp
  have s: "st_mtim_sec (stat (nodes ?e ! 1)) = 1234567890" by code_simp
  have n: "st_mtim_nsec (stat (nodes ?e ! 1)) = 123456789" by code_simp
  have g: "time_granularity ?e = 1000000000" by code_simp
  have k1: "buffer ?e' = []" by code_simp
  have k2: "ca_encoder_node_current_dirent (nodes ?e' ! 0) = Some child_entry" by code_simp
  have k3: "ca_encoder_current_child_node ?e' = Some (nodes ?e' ! 1)" by code_simp
  have k4: "time_granularity ?e' \<in> {1, 1000, 1000000000, 2000000000}" by code_simp
  have k5: "fst (ca_encoder_get_entry_data test_format ?os ?e' (nodes ?e' ! 0) ?w') = Inr 1"
    by code_simp
  have s': "st_mtim_sec (stat (nodes ?e' ! 1)) = 1234567890" by code_simp
  have n': "st_mtim_nsec (stat (nodes ?e' ! 1)) = 123456789" by code_simp
  have g': "time_granularity ?e' = 1000" by code_simp
  from entry_mtime_quantized [OF h1 h2 h3 h4 h5, THEN conjunct2]
  have "unat (read_le64 (drop 40 (buffer (fst (snd (ca_encoder_get_entry_data test_format ?os ?e
            (nodes ?e ! 0) ?w)))))) = 1234567890000000000"
    unfolding s n g by simp
  moreover
  from entry_mtime_quantized [OF k1 k2 k3 k4 k5, THEN conjunct2]
  have "unat (read_le64 (drop 40 (buffer (fst (snd (ca_encoder_get_entry_data test_format ?os ?e'
            (nodes ?e' ! 0) ?w')))))) = 1234567890123456000"
    unfolding s' n' g' by simp
  ultimately show ?thesis by (rule conjI)
qed

text \<open>
  Claim symlink_mode_by_flags says that the mode field of a symlink's entry is \<^verbatim>\<open>S_IFLNK | 0777\<close> under
  every flag configuration. With \<^verbatim>\<open>WITH_READONLY\<close> (and without
  \<^verbatim>\<open>WITH_PERMISSIONS\<close>) the field at offset 16 of the chunk is 0xA1B6, that is
  \<^verbatim>\<open>S_IFLNK | 0666\<close>, not 0xA1FF.
\<close>

theorem symlink_mode_readonly:
  "fst (ca_encoder_get_data test_format (test_os (dots @ [child_entry]) link_stat)
          (fst (at_entry 0xF86 link_stat)) (snd (at_entry 0xF86 link_stat)))
     = Inr (1, Some (buffer (fst (snd (ca_encoder_get_data test_format
               (test_os (dots @ [child_entry]) link_stat)
               (fst (at_entry 0xF86 link_stat)) (snd (at_entry 0xF86 link_stat)))))), 73)
   \<and> read_le64 (drop 16 (buffer (fst (snd (ca_encoder_get_data test_format
        (test_os (dots @ [child_entry]) link_stat)
        (fst (at_entry 0xF86 link_stat)) (snd (at_entry 0xF86 link_stat)))))))
      = 0xA1B6
   \<and> (ucast S_IFLNK OR 511 :: u64) = 0xA1FF"
  by code_simp

text \<open>
  Claim symlink_mode_by_flags, amended: the mode of a symlink is first set to \<^verbatim>\<open>S_IFLNK | 0777\<close>, so the
  permission bits on disk never reach the entry, and is then masked by the flags like
  every other mode: the field is \<^verbatim>\<open>S_IFLNK | 0777\<close> with \<^verbatim>\<open>WITH_PERMISSIONS\<close>,
  \<^verbatim>\<open>S_IFLNK | 0666\<close> with \<^verbatim>\<open>WITH_READONLY\<close> alone, and \<^verbatim>\<open>S_IFLNK\<close> with
  neither.
\<close>

theorem symlink_mode_by_flags:
  assumes "buffer e = []" "ca_encoder_node_current_dirent n = Some de"
    "ca_encoder_current_child_node e = Some child"
    "S_ISLNK (st_mode (stat child))"
    "fst (ca_encoder_get_entry_data c os e n w) = Inr r"
  shows "read_le64 (drop 16 (buffer (fst (snd (ca_encoder_get_entry_data c os e n w)))))
         = (if feature_flags e AND CA_FORMAT_WITH_PERMISSIONS c \<noteq> 0 then ucast S_IFLNK OR 511
            else if feature_flags e AND CA_FORMAT_WITH_READONLY c \<noteq> 0 then ucast S_IFLNK OR 438
            else ucast S_IFLNK)"
proof -
  from get_entry_data_built(2) [OF assms(1,2,3,5)]
  obtain rest where "buffer (fst (snd (ca_encoder_get_entry_data c os e n w))) =
     entry_bytes c de child (entry_mode c (feature_flags e) (st_mode (stat child)))
       (entry_uid c (feature_flags e) (stat child))
       (entry_gid c (feature_flags e) (stat child))
       (entry_mtime (time_granularity e) (stat child)) @ rest" by blast
  then show ?thesis by (simp only: entry_bytes_mode entry_mode_symlink [OF assms(4)])
qed

theorem symlink_mode_by_flags_witness:
  "read_le64 (drop 16 (buffer (fst (snd (ca_encoder_get_entry_data test_format
      (test_os (dots @ [child_entry]) link_stat) (fst (at_entry 0xF46 link_stat))
      (nodes (fst (at_entry 0xF46 link_stat)) ! 0) (snd (at_entry 0xF46 link_stat)))))))
     = 0xA1FF
   \<and> read_le64 (drop 16 (buffer (fst (snd (ca_encoder_get_entry_data test_format
      (test_os (dots @ [child_entry]) link_stat) (fst (at_entry 0xF06 link_stat))
      (nodes (fst (at_entry 0xF06 link_stat)) ! 0) (snd (at_entry 0xF06 link_stat)))))))
     = 0xA000"
proof -
  let ?os = "test_os (dots @ [child_entry]) link_stat"
  let ?e = "fst (at_entry 0xF46 link_stat)"
  let ?w = "snd (at_entry 0xF46 link_stat)"
  let ?e' = "fst (at_entry 0xF06 link_stat)"
  let ?w' = "snd (at_entry 0xF06 link_stat)"
  have h1: "buffer ?e = []" by code_simp
  have h2: "ca_encoder_node_current_dirent (nodes ?e ! 0) = Some child_entry" by code_simp
  have h3: "ca_encoder_current_child_node ?e = Some (nodes ?e ! 1)" by code_simp
  have h4: "S_ISLNK (st_mode (stat (nodes ?e ! 1)))" by code_simp
  have h5: "fst (ca_encoder_get_entry_data test_format ?os ?e (nodes ?e ! 0) ?w) = Inr 1"
    by code_simp
  have v: "(if feature_flags ?e AND CA_FORMAT_WITH_PERMISSIONS test_format \<noteq> 0
            then ucast S_IFLNK OR 511
            else if feature_flags ?e AND CA_FORMAT_WITH_READONLY test_format \<noteq> 0
            then ucast S_IFLNK OR 438 else ucast S_IFLNK) = (0xA1FF :: u64)"
    by code_simp
  have k1: "buffer ?e' = []" by code_simp
  have k2: "ca_encoder_node_current_dirent (nodes ?e' ! 0) = Some child_entry" by code_simp
  have k3: "ca_encoder_current_child_node ?e' = Some (nodes ?e' ! 1)" by code_simp
  have k4: "S_ISLNK (st_mode (stat (nodes ?e' ! 1)))" by code_simp
  have k5: "fst (ca_encoder_get_entry_data test_format ?os ?e' (nodes ?e' ! 0) ?w') = Inr 1"
    by code_simp
  have v': "(if feature_flags ?e' AND CA_FORMAT_WITH_PERMISSIONS test_format \<noteq> 0
            then ucast S_IFLNK OR 511
            else if feature_flags ?e' AND CA_FORMAT_WITH_READONLY test_format \<noteq> 0
            then ucast S_IFLNK OR 438 else ucast S_IFLNK) = (0xA000 :: u64)"
    by code_simp
  from symlink_mode_by_flags [OF h1 h2 h3 h4 h5] symlink_mode_by_flags [OF k1 k2 k3 k4 k5]
  show ?thesis by (simp only: v v')
qed



text \<open>
  Claim entry_feature_rejection says that a child of a kind whose feature flag is off is rejected with the
  protocol-unsupported error. The reserved user and group numbers are tested first: a
  symlink owned by user 65535, with \<^verbatim>\<open>WITH_SYMLINKS\<close> off, is rejected with
  \<^verbatim>\<open>EINVAL\<close>.
\<close>

theorem entry_rejection_reserved_owner_first:
  "S_ISLNK (st_mode (stat (nodes (fst (at_entry 0xE46 (link_stat\<lparr>st_uid := 65535\<rparr>))) ! 1)))
   \<and> feature_flags (fst (at_entry 0xE46 (link_stat\<lparr>st_uid := 65535\<rparr>)))
        AND CA_FORMAT_WITH_SYMLINKS test_format = 0
   \<and> fst (ca_encoder_get_data test_format (test_os (dots @ [child_entry]) (link_stat\<lparr>st_uid := 65535\<rparr>))
          (fst (at_entry 0xE46 (link_stat\<lparr>st_uid := 65535\<rparr>)))
          (snd (at_entry 0xE46 (link_stat\<lparr>st_uid := 65535\<rparr>)))) = Inl EINVAL"
  by code_simp

text \<open>
  Claim entry_feature_rejection, amended: in the state \<^verbatim>\<open>CA_ENCODER_ENTRY\<close>, with nothing in the buffer
  yet, fetching the entry of a symlink, device node, fifo or socket whose feature flag is
  off fails, with \<^verbatim>\<open>EINVAL\<close> when the child's user or group number is 65535 or
  4294967295 and with \<^verbatim>\<open>EPROTONOSUPPORT\<close> otherwise; the encoder is returned
  unchanged, so the buffer stays empty and neither \<^verbatim>\<open>step_size\<close> nor the archive
  offset move.
\<close>

theorem entry_feature_rejection:
  assumes "ca_encoder_current_node e = Some n" "S_ISDIR (st_mode (stat n))"
    "state e = CA_ENCODER_ENTRY" "buffer e = []"
    "ca_encoder_node_current_dirent n = Some de"
    "ca_encoder_current_child_node e = Some child"
    "(S_ISLNK (st_mode (stat child)) \<and> feature_flags e AND CA_FORMAT_WITH_SYMLINKS c = 0)
     \<or> ((S_ISBLK (st_mode (stat child)) \<or> S_ISCHR (st_mode (stat child)))
           \<and> feature_flags e AND CA_FORMAT_WITH_DEVICE_NODES c = 0)
     \<or> (S_ISFIFO (st_mode (stat child)) \<and> feature_flags e AND CA_FORMAT_WITH_FIFOS c = 0)
     \<or> (S_ISSOCK (st_mode (stat child)) \<and> feature_flags e AND CA_FORMAT_WITH_SOCKETS c = 0)"
  shows "ca_encoder_get_data c os e w =
     (Inl (if st_uid (stat child) = UINT16_MAX \<or> st_uid (stat child) = UINT32_MAX
              \<or> st_gid (stat child) = UINT16_MAX \<or> st_gid (stat child) = UINT32_MAX
           then EINVAL else EPROTONOSUPPORT), e, w)"
proof -
  have "ca_encoder_get_entry_data c os e n w =
     (Inl (if st_uid (stat child) = UINT16_MAX \<or> st_uid (stat child) = UINT32_MAX
              \<or> st_gid (stat child) = UINT16_MAX \<or> st_gid (stat child) = UINT32_MAX
           then EINVAL else EPROTONOSUPPORT), e, w)"
    by (rule get_entry_data_rejected [OF assms(4,5,6) entry_rejection_kind [OF assms(7)]])
  then show ?thesis
    using assms(1,2,3) dir_not_payload [OF assms(2)]
    by (simp add: ca_encoder_get_data_def)
qed

theorem entry_feature_rejection_witness:
  "ca_encoder_get_data test_format (test_os (dots @ [child_entry]) link_stat)
          (fst (at_entry 0xE46 link_stat)) (snd (at_entry 0xE46 link_stat))
     = (Inl EPROTONOSUPPORT, fst (at_entry 0xE46 link_stat), snd (at_entry 0xE46 link_stat))"
proof -
  let ?os = "test_os (dots @ [child_entry]) link_stat"
  let ?e = "fst (at_entry 0xE46 link_stat)"
  let ?w = "snd (at_entry 0xE46 link_stat)"
  have h0: "ca_encoder_current_node ?e = Some (nodes ?e ! 0)" by code_simp
  have hd: "S_ISDIR (st_mode (stat (nodes ?e ! 0)))" by code_simp
  have hs: "state ?e = CA_ENCODER_ENTRY" by code_simp
  have h1: "buffer ?e = []" by code_simp
  have h2: "ca_encoder_node_current_dirent (nodes ?e ! 0) = Some child_entry" by code_simp
  have h3: "ca_encoder_current_child_node ?e = Some (nodes ?e ! 1)" by code_simp
  have hk: "(S_ISLNK (st_mode (stat (nodes ?e ! 1)))
        \<and> feature_flags ?e AND CA_FORMAT_WITH_SYMLINKS test_format = 0)
     \<or> ((S_ISBLK (st_mode (stat (nodes ?e ! 1))) \<or> S_ISCHR (st_mode (stat (nodes ?e ! 1))))
           \<and> feature_flags ?e AND CA_FORMAT_WITH_DEVICE_NODES test_format = 0)
     \<or> (S_ISFIFO (st_mode (stat (nodes ?e ! 1)))
           \<and> feature_flags ?e AND CA_FORMAT_WITH_FIFOS test_format = 0)
     \<or> (S_ISSOCK (st_mode (stat (nodes ?e ! 1)))
           \<and> feature_flags ?e AND CA_FORMAT_WITH_SOCKETS test_format = 0)" by code_simp
  have ns: "(if st_uid (stat (nodes ?e ! 1)) = UINT16_MAX \<or> st_uid (stat (nodes ?e ! 1)) = UINT32_MAX
              \<or> st_gid (stat (nodes ?e ! 1)) = UINT16_MAX \<or> st_gid (stat (nodes ?e ! 1)) = UINT32_MAX
           then EINVAL else EPROTONOSUPPORT) = EPROTONOSUPPORT" by code_simp
  from entry_feature_rejection [OF h0 hd hs h1 h2 h3 hk, where os = ?os and w = ?w]
  show ?thesis by (simp only: ns)
qed

subsection \<open>What a step leaves alone\<close>

lemma set_current_node_frame: "set_current_node e n = e\<lparr>nodes := nodes (set_current_node e n)\<rparr>"
  by (simp add: set_current_node_def)

lemma set_last_node_frame: "set_last_node e n = e\<lparr>nodes := nodes (set_last_node e n)\<rparr>"
  by (simp add: set_last_node_def)

lemma forget_children_nodes:
  "\<exists>ns. fst (snd (ca_encoder_forget_children os e w)) = e\<lparr>nodes := ns\<rparr>"
proof (induction os e w rule: ca_encoder_forget_children.induct)
  case (1 os e w)
  show ?case
  proof (cases "n_nodes e - 1 > node_idx e")
    case False
    then have "fst (snd (ca_encoder_forget_children os e w)) = e\<lparr>nodes := nodes e\<rparr>"
      by (subst ca_encoder_forget_children.simps) simp
    then show ?thesis by blast
  next
    case True
    obtain r w' where nf: "ca_encoder_node_free os (last (nodes e)) w = (r, w')"
      by (cases "ca_encoder_node_free os (last (nodes e)) w") auto
    show ?thesis
    proof (cases r)
      case (Inl err)
      with True nf have "fst (snd (ca_encoder_forget_children os e w)) = e\<lparr>nodes := butlast (nodes e)\<rparr>"
        by (subst ca_encoder_forget_children.simps) simp
      then show ?thesis by blast
    next
      case (Inr x)
      from 1 [OF True nf [symmetric] Inr]
      obtain ns where "fst (snd (ca_encoder_forget_children os (e\<lparr>nodes := butlast (nodes e)\<rparr>) w'))
                          = e\<lparr>nodes := ns\<rparr>" by auto
      moreover from True nf Inr
      have "ca_encoder_forget_children os e w
              = ca_encoder_forget_children os (e\<lparr>nodes := butlast (nodes e)\<rparr>) w'"
        by (subst ca_encoder_forget_children.simps) simp
      ultimately show ?thesis by auto
    qed
  qed
qed

lemma forget_children_frame:
  "fst (snd (ca_encoder_forget_children os e w))
     = e\<lparr>nodes := nodes (fst (snd (ca_encoder_forget_children os e w)))\<rparr>"
proof -
  obtain ns where "fst (snd (ca_encoder_forget_children os e w)) = e\<lparr>nodes := ns\<rparr>"
    using forget_children_nodes [of os e w] by blast
  then show ?thesis by simp
qed

lemma init_child_nodes:
  "\<exists>ns. fst (snd (ca_encoder_init_child c os e w)) = e\<lparr>nodes := ns\<rparr>"
proof -
  obtain ns where "fst (snd (ca_encoder_forget_children os e w)) = e\<lparr>nodes := ns\<rparr>"
    using forget_children_nodes [of os e w] by blast
  then show ?thesis
    by (cases "ca_encoder_forget_children os e w")
       (auto simp add: ca_encoder_init_child_def split: sum.splits)
qed

lemma init_child_frame:
  "fst (snd (ca_encoder_init_child c os e w)) = e\<lparr>nodes := nodes (fst (snd (ca_encoder_init_child c os e w)))\<rparr>"
proof -
  obtain ns where "fst (snd (ca_encoder_init_child c os e w)) = e\<lparr>nodes := ns\<rparr>"
    using init_child_nodes [of c os e w] by blast
  then show ?thesis by simp
qed

lemma open_child_nodes:
  "\<exists>ns. fst (snd (ca_encoder_open_child c os e de w)) = e\<lparr>nodes := ns\<rparr>"
proof (cases "ca_encoder_current_node e")
  case None
  then have "fst (snd (ca_encoder_open_child c os e de w)) = e\<lparr>nodes := nodes e\<rparr>"
    by (simp add: ca_encoder_open_child_def)
  then show ?thesis by blast
next
  case (Some n)
  obtain r1 e1 w1 where ic: "ca_encoder_init_child c os e w = (r1, e1, w1)"
    by (cases "ca_encoder_init_child c os e w") auto
  obtain ns where "fst (snd (ca_encoder_init_child c os e w)) = e\<lparr>nodes := ns\<rparr>"
    using init_child_nodes [of c os e w] by blast
  with ic have e1: "e1 = e\<lparr>nodes := ns\<rparr>" by simp
  have k: "set_last_node e1 ch = e\<lparr>nodes := nodes (set_last_node e1 ch)\<rparr>" for ch
    by (simp add: e1 set_last_node_def)
  have "fst (snd (ca_encoder_open_child c os e de w)) = e
        \<or> fst (snd (ca_encoder_open_child c os e de w)) = e1
        \<or> (\<exists>ch. fst (snd (ca_encoder_open_child c os e de w)) = set_last_node e1 ch)"
    using Some ic
    by (auto simp add: ca_encoder_open_child_def split: prod.splits sum.splits bool.splits)
  then show ?thesis
  proof (elim disjE exE)
    assume "fst (snd (ca_encoder_open_child c os e de w)) = e"
    then have "fst (snd (ca_encoder_open_child c os e de w)) = e\<lparr>nodes := nodes e\<rparr>" by simp
    then show ?thesis by blast
  next
    assume "fst (snd (ca_encoder_open_child c os e de w)) = e1"
    with e1 show ?thesis by blast
  next
    fix ch assume "fst (snd (ca_encoder_open_child c os e de w)) = set_last_node e1 ch"
    with k [of ch] have "fst (snd (ca_encoder_open_child c os e de w))
                           = e\<lparr>nodes := nodes (set_last_node e1 ch)\<rparr>" by simp
    then show ?thesis by blast
  qed
qed

lemma open_child_frame:
  "fst (snd (ca_encoder_open_child c os e de w)) = e\<lparr>nodes := nodes (fst (snd (ca_encoder_open_child c os e de w)))\<rparr>"
proof -
  obtain ns where "fst (snd (ca_encoder_open_child c os e de w)) = e\<lparr>nodes := ns\<rparr>"
    using open_child_nodes [of c os e de w] by blast
  then show ?thesis by simp
qed

lemma offsets_kept_refl: "step_size e = 0 \<Longrightarrow> offsets_kept e e"
  by (simp add: offsets_kept_def)

lemma offsets_kept_trans: "offsets_kept a b \<Longrightarrow> offsets_kept b c \<Longrightarrow> offsets_kept a c"
  by (auto simp add: offsets_kept_def)

lemma offsets_kept_nodes: "step_size e = 0 \<Longrightarrow> e' = e\<lparr>nodes := ns\<rparr> \<Longrightarrow> offsets_kept e e'"
  by (simp add: offsets_kept_def)

lemma offsets_kept_enter_state: "offsets_kept e (ca_encoder_enter_state e s)"
  by (simp add: offsets_kept_def ca_encoder_enter_state_def)

lemma offsets_kept_set_current: "step_size e = 0 \<Longrightarrow> offsets_kept e (set_current_node e n)"
  by (simp add: offsets_kept_def set_current_node_def)

lemma offsets_kept_open_child:
  assumes "step_size e = 0"
  shows "offsets_kept e (fst (snd (ca_encoder_open_child c os e de w)))"
  by (rule offsets_kept_nodes [OF assms open_child_frame])

lemma offsets_kept_step_regular:
  assumes "step_size e = 0"
  shows "offsets_kept e (fst (snd (ca_encoder_step_regular os e n w)))"
  using assms
  by (auto simp add: ca_encoder_step_regular_def offsets_kept_def Let_def
      set_current_node_def ca_encoder_enter_state_def split: prod.splits sum.splits)

lemma offsets_kept_hello:
  assumes "step_size e = 0"
  shows "offsets_kept e (fst (snd (step_directory_hello c os e n w)))"
proof (cases "ca_encoder_node_current_dirent n")
  case None
  then show ?thesis by (simp add: step_directory_hello_def offsets_kept_enter_state)
next
  case (Some de)
  have "offsets_kept e (fst (snd (ca_encoder_open_child c os e de w)))"
    by (rule offsets_kept_open_child [OF assms])
  moreover have "offsets_kept (fst (snd (ca_encoder_open_child c os e de w)))
     (ca_encoder_enter_state (fst (snd (ca_encoder_open_child c os e de w))) CA_ENCODER_ENTRY)"
    by (rule offsets_kept_enter_state)
  ultimately show ?thesis
    using Some
    by (auto simp add: step_directory_hello_def split: prod.splits sum.splits
        dest: offsets_kept_trans)
qed

lemma offsets_kept_post_child:
  assumes "step_size e = 0"
  shows "offsets_kept e (fst (snd (step_directory_post_child c os e n w)))"
proof -
  let ?e1 = "set_current_node e (n\<lparr>dirent_idx := dirent_idx n + 1\<rparr>)"
  have 1: "offsets_kept e ?e1" by (rule offsets_kept_set_current [OF assms])
  have "step_size ?e1 = 0" using assms by (simp add: set_current_node_def)
  then have "offsets_kept ?e1 (fst (snd (step_directory_hello c os ?e1 (n\<lparr>dirent_idx := dirent_idx n + 1\<rparr>) w)))"
    by (rule offsets_kept_hello)
  with 1 show ?thesis
    by (auto simp add: step_directory_post_child_def Let_def intro: offsets_kept_trans)
qed

lemma offsets_kept_leave_child:
  "offsets_kept e e1 \<Longrightarrow> offsets_kept e (snd (ca_encoder_leave_child e1))"
  by (simp add: offsets_kept_def ca_encoder_leave_child_def)

lemma offsets_kept_enter_child:
  "offsets_kept e e1 \<Longrightarrow> offsets_kept e (snd (ca_encoder_enter_child e1))"
  by (simp add: offsets_kept_def ca_encoder_enter_child_def Let_def)

lemma offsets_kept_forget:
  "offsets_kept e e1 \<Longrightarrow> offsets_kept e (fst (snd (ca_encoder_forget_children os e1 w)))"
proof -
  assume a: "offsets_kept e e1"
  obtain ns where "fst (snd (ca_encoder_forget_children os e1 w)) = e1\<lparr>nodes := ns\<rparr>"
    using forget_children_nodes [of os e1 w] by blast
  with a show ?thesis by (simp add: offsets_kept_def)
qed

lemma offsets_kept_then_enter_state:
  "offsets_kept e e1 \<Longrightarrow> offsets_kept e (ca_encoder_enter_state e1 s)"
  by (simp add: offsets_kept_def ca_encoder_enter_state_def)

lemma offsets_kept_consume_enter_state:
  "offsets_kept e e1 \<Longrightarrow> offsets_kept e (consume_step_size (ca_encoder_enter_state e1 s))"
  by (simp add: offsets_kept_def ca_encoder_enter_state_def consume_step_size_def)

lemma offsets_kept_step_size: "offsets_kept e e' \<Longrightarrow> step_size e' = 0"
  by (simp add: offsets_kept_def)

lemma step_size_consume [simp]: "step_size (consume_step_size e) = 0"
  by (simp add: consume_step_size_def)

lemma state_consume [simp]: "state (consume_step_size e) = state e"
  by (simp add: consume_step_size_def)

lemma state_enter_state [simp]: "state (ca_encoder_enter_state e s) = s"
  by (simp add: ca_encoder_enter_state_def)

lemma step_size_set_current [simp]: "step_size (set_current_node e n) = step_size e"
  by (simp add: set_current_node_def)

lemma state_set_current [simp]: "state (set_current_node e n) = state e"
  by (simp add: set_current_node_def)

text \<open>One level of each of the three functions, given the property for the level below.\<close>

lemma directory_level_offsets:
  assumes step: "\<And>e w r e' w'. state e \<noteq> CA_ENCODER_EOF \<Longrightarrow>
                   step_fuel c os k e w = Some (r, e', w') \<Longrightarrow> offsets_kept (consume_step_size e) e'"
    and z: "step_size e = 0"
    and run: "step_directory_fuel c os (Suc k) e n w = Some (r, e', w')"
  shows "offsets_kept e e'"
proof (cases "S_ISDIR (st_mode (stat n))")
  case False
  with run z show ?thesis by (simp add: offsets_kept_refl)
next
  case True
  obtain rd n1 w1 where rd: "ca_encoder_node_read_dirents os n w = (rd, n1, w1)"
    by (cases "ca_encoder_node_read_dirents os n w") auto
  let ?e1 = "set_current_node e n1"
  have k1: "offsets_kept e ?e1" by (rule offsets_kept_set_current [OF z])
  have z1: "step_size ?e1 = 0" using z by simp
  show ?thesis
  proof (cases rd)
    case (Inl err)
    with run True rd k1 show ?thesis by simp
  next
    case (Inr x)
    show ?thesis
    proof (cases "state e")
      case CA_ENCODER_INIT
      with run True rd Inr have "e' = ca_encoder_enter_state ?e1 CA_ENCODER_HELLO" by simp
      then show ?thesis using k1 by (simp add: offsets_kept_then_enter_state)
    next
      case CA_ENCODER_HELLO
      with run True rd Inr have "e' = fst (snd (step_directory_hello c os ?e1 n1 w1))" 
        by (cases "step_directory_hello c os ?e1 n1 w1") simp
      then show ?thesis using offsets_kept_trans [OF k1 offsets_kept_hello [OF z1]] by simp
    next
      case CA_ENCODER_POST_CHILD
      with run True rd Inr have "e' = fst (snd (step_directory_post_child c os ?e1 n1 w1))"
        by (cases "step_directory_post_child c os ?e1 n1 w1") simp
      then show ?thesis using offsets_kept_trans [OF k1 offsets_kept_post_child [OF z1]] by simp
    next
      case CA_ENCODER_GOODBYE
      with run True rd Inr have "e' = ca_encoder_enter_state ?e1 CA_ENCODER_EOF" by simp
      then show ?thesis using k1 by (simp add: offsets_kept_then_enter_state)
    next
      case CA_ENCODER_EOF
      with run True rd Inr have "e' = ?e1" by simp
      then show ?thesis using k1 by simp
    next
      case CA_ENCODER_ENTRY
      show ?thesis
      proof (cases "ca_encoder_current_child_node ?e1")
        case None
        with run True rd Inr CA_ENCODER_ENTRY have "e' = ?e1" by simp
        then show ?thesis using k1 by simp
      next
        case (Some child)
        show ?thesis
        proof (cases "S_ISDIR (st_mode (stat child)) \<or> S_ISREG (st_mode (stat child))")
          case False
          with run True rd Inr CA_ENCODER_ENTRY Some
          have "e' = fst (snd (step_directory_post_child c os ?e1 n1 w1))"
            by (cases "step_directory_post_child c os ?e1 n1 w1") simp
          then show ?thesis using offsets_kept_trans [OF k1 offsets_kept_post_child [OF z1]]
            by simp
        next
          case enter: True
          obtain re e2 where ec: "ca_encoder_enter_child ?e1 = (re, e2)"
            by (cases "ca_encoder_enter_child ?e1") auto
          have k2: "offsets_kept e e2" using offsets_kept_enter_child [OF k1] ec by simp
          show ?thesis
          proof (cases re)
            case (Inl err)
            with run True rd Inr CA_ENCODER_ENTRY Some enter ec have "e' = e2" by simp
            then show ?thesis using k2 by simp
          next
            case (Inr y)
            with run True rd \<open>rd = Inr x\<close> CA_ENCODER_ENTRY Some enter ec
            have "step_fuel c os k (ca_encoder_enter_state e2 CA_ENCODER_INIT) w1 = Some (r, e', w')"
              by simp
            then have "offsets_kept (consume_step_size (ca_encoder_enter_state e2 CA_ENCODER_INIT)) e'"
              by (rule step [rotated]) simp
            then show ?thesis
              by (rule offsets_kept_trans [OF offsets_kept_consume_enter_state [OF k2]])
          qed
        qed
      qed
    qed
  qed
qed


lemma loop_level_offsets:
  assumes dir: "\<And>e n w r e' w'. step_size e = 0 \<Longrightarrow>
                   step_directory_fuel c os k e n w = Some (r, e', w') \<Longrightarrow> offsets_kept e e'"
    and loop: "\<And>e w r e' w'. step_size e = 0 \<Longrightarrow>
                   step_loop_fuel c os k e w = Some (r, e', w') \<Longrightarrow> offsets_kept e e'"
    and z: "step_size e = 0"
    and run: "step_loop_fuel c os (Suc k) e w = Some (r, e', w')"
  shows "offsets_kept e e'"
proof (cases "ca_encoder_current_node e")
  case None
  with run z show ?thesis by (simp add: offsets_kept_refl)
next
  case (Some n)
  let ?first = "if S_ISREG (st_mode (stat n)) \<or> S_ISBLK (st_mode (stat n))
                 then Some (ca_encoder_step_regular os e n w)
                 else if S_ISDIR (st_mode (stat n)) then step_directory_fuel c os k e n w
                 else Some (Inl ENOTTY, e, w)"
  from run Some obtain r1 e1 w1 where first: "?first = Some (r1, e1, w1)"
    by (cases ?first) auto
  have k1: "offsets_kept e e1"
  proof (cases "S_ISREG (st_mode (stat n)) \<or> S_ISBLK (st_mode (stat n))")
    case True
    with first have "e1 = fst (snd (ca_encoder_step_regular os e n w))" by auto
    then show ?thesis using offsets_kept_step_regular [OF z] by simp
  next
    case False
    show ?thesis
    proof (cases "S_ISDIR (st_mode (stat n))")
      case True
      with False first have "step_directory_fuel c os k e n w = Some (r1, e1, w1)" by simp
      then show ?thesis by (rule dir [OF z])
    next
      case nd: False
      with False first have "e1 = e" by simp
      then show ?thesis using z by (simp add: offsets_kept_refl)
    qed
  qed
  show ?thesis
  proof (cases "r1 \<noteq> Inr CA_ENCODER_FINISHED")
    case True
    with run Some first have "e' = e1" by simp
    then show ?thesis using k1 by simp
  next
    case False
    obtain r' e2 where lc: "ca_encoder_leave_child e1 = (r', e2)"
      by (cases "ca_encoder_leave_child e1") auto
    have k2: "offsets_kept e e2" using offsets_kept_leave_child [OF k1] lc by simp
    show ?thesis
    proof (cases "r' = 0")
      case True
      with run Some first False lc
      have "e' = fst (snd (ca_encoder_forget_children os e2 w1))"
        by (cases "ca_encoder_forget_children os e2 w1") (auto split: sum.splits)
      then show ?thesis using offsets_kept_forget [OF k2] by simp
    next
      case nz: False
      with run Some first False lc
      have "step_loop_fuel c os k (ca_encoder_enter_state e2 CA_ENCODER_POST_CHILD) w1
              = Some (r, e', w')" by simp
      then have "offsets_kept (ca_encoder_enter_state e2 CA_ENCODER_POST_CHILD) e'"
        by (rule loop [rotated]) (simp add: ca_encoder_enter_state_def)
      then show ?thesis
        by (rule offsets_kept_trans [OF offsets_kept_then_enter_state [OF k2]])
    qed
  qed
qed

lemma step_fuel_offsets_all:
  "(\<forall>e w r e' w'. state e \<noteq> CA_ENCODER_EOF \<longrightarrow> step_fuel c os k e w = Some (r, e', w')
        \<longrightarrow> offsets_kept (consume_step_size e) e')
   \<and> (\<forall>e w r e' w'. step_size e = 0 \<longrightarrow> step_loop_fuel c os k e w = Some (r, e', w')
        \<longrightarrow> offsets_kept e e')
   \<and> (\<forall>e n w r e' w'. step_size e = 0 \<longrightarrow> step_directory_fuel c os k e n w = Some (r, e', w')
        \<longrightarrow> offsets_kept e e')"
proof (induction k)
  case 0
  show ?case by simp
next
  case (Suc k)
  have step: "offsets_kept (consume_step_size e) e'"
    if "state e \<noteq> CA_ENCODER_EOF" "step_fuel c os (Suc k) e w = Some (r, e', w')" for e w r e' w'
  proof -
    from that have "step_loop_fuel c os k (consume_step_size e) w = Some (r, e', w')" by simp
    with Suc.IH show ?thesis by (meson step_size_consume)
  qed
  have loop: "offsets_kept e e'"
    if "step_size e = 0" "step_loop_fuel c os (Suc k) e w = Some (r, e', w')" for e w r e' w'
    using Suc.IH that by (intro loop_level_offsets [of c os k e w r e' w']) blast+
  have dir: "offsets_kept e e'"
    if "step_size e = 0" "step_directory_fuel c os (Suc k) e n w = Some (r, e', w')" for e n w r e' w'
    using Suc.IH that by (intro directory_level_offsets [of c os k e n w r e' w']) blast+
  from step loop dir show ?case by blast
qed


lemma step_fuel_offsets:
  "state e \<noteq> CA_ENCODER_EOF \<Longrightarrow> step_fuel c os k e w = Some (r, e', w')
     \<Longrightarrow> offsets_kept (consume_step_size e) e'"
  using step_fuel_offsets_all [of c os k] by blast

subsection \<open>The step always returns\<close>

text \<open>
  With seven levels of fuel the three functions return for every encoder and every
  world: after its first round the loop is in the state \<^verbatim>\<open>CA_ENCODER_POST_CHILD\<close>, in
  which a directory returns at once and a file trips the assertion of
  \<^verbatim>\<open>ca_encoder_step_regular\<close>; and the recursive call starts in the state
  \<^verbatim>\<open>CA_ENCODER_INIT\<close>, in which a directory returns at once too.
\<close>

lemma hello_not_finished: "fst (step_directory_hello c os e n w) \<noteq> Inr CA_ENCODER_FINISHED"
  by (simp add: step_directory_hello_def split: option.splits prod.splits sum.splits)

lemma post_child_not_finished:
  "fst (step_directory_post_child c os e n w) \<noteq> Inr CA_ENCODER_FINISHED"
  by (simp add: step_directory_post_child_def Let_def hello_not_finished)

lemma directory_flat:
  assumes "state e = CA_ENCODER_INIT \<or> state e = CA_ENCODER_HELLO \<or> state e = CA_ENCODER_POST_CHILD"
  shows "\<exists>r e' w'. step_directory_fuel c os (Suc k) e n w = Some (r, e', w')
                    \<and> r \<noteq> Inr CA_ENCODER_FINISHED"
proof (cases "S_ISDIR (st_mode (stat n))")
  case False
  then show ?thesis by simp
next
  case True
  obtain rd n1 w1 where rd: "ca_encoder_node_read_dirents os n w = (rd, n1, w1)"
    by (cases "ca_encoder_node_read_dirents os n w") auto
  show ?thesis
  proof (cases rd)
    case (Inl err)
    with True rd show ?thesis by simp
  next
    case (Inr x)
    from assms show ?thesis
    proof (elim disjE)
      assume "state e = CA_ENCODER_INIT"
      with True rd Inr show ?thesis by simp
    next
      assume "state e = CA_ENCODER_HELLO"
      with True rd Inr hello_not_finished [of c os "set_current_node e n1" n1 w1]
      show ?thesis by (cases "step_directory_hello c os (set_current_node e n1) n1 w1") simp
    next
      assume "state e = CA_ENCODER_POST_CHILD"
      with True rd Inr post_child_not_finished [of c os "set_current_node e n1" n1 w1]
      show ?thesis by (cases "step_directory_post_child c os (set_current_node e n1) n1 w1") simp
    qed
  qed
qed

lemma loop_post_child:
  assumes "state e = CA_ENCODER_POST_CHILD"
  shows "\<exists>r e' w'. step_loop_fuel c os (Suc (Suc k)) e w = Some (r, e', w')
                    \<and> r \<noteq> Inr CA_ENCODER_FINISHED"
proof (cases "ca_encoder_current_node e")
  case None
  then show ?thesis by simp
next
  case (Some n)
  show ?thesis
  proof (cases "S_ISREG (st_mode (stat n)) \<or> S_ISBLK (st_mode (stat n))")
    case True
    have "ca_encoder_step_regular os e n w = (Inl ABORT, e, w)"
      using assms by (simp add: ca_encoder_step_regular_def)
    with Some True show ?thesis by simp
  next
    case False
    show ?thesis
    proof (cases "S_ISDIR (st_mode (stat n))")
      case True
      from directory_flat [of e c os k n w] assms
      obtain r e' w' where "step_directory_fuel c os (Suc k) e n w = Some (r, e', w')"
        "r \<noteq> Inr CA_ENCODER_FINISHED" by blast
      with Some False True show ?thesis by simp
    next
      case nd: False
      with Some False show ?thesis by simp
    qed
  qed
qed

lemma loop_init:
  assumes "state e = CA_ENCODER_INIT"
  shows "step_loop_fuel c os (Suc (Suc (Suc k))) e w \<noteq> None"
proof (cases "ca_encoder_current_node e")
  case None
  then show ?thesis by simp
next
  case (Some n)
  show ?thesis
  proof (cases "S_ISREG (st_mode (stat n)) \<or> S_ISBLK (st_mode (stat n))")
    case True
    obtain r1 e1 w1 where sr: "ca_encoder_step_regular os e n w = (r1, e1, w1)"
      by (cases "ca_encoder_step_regular os e n w") auto
    obtain r' e2 where lc: "ca_encoder_leave_child e1 = (r', e2)"
      by (cases "ca_encoder_leave_child e1") auto
    from loop_post_child [of "ca_encoder_enter_state e2 CA_ENCODER_POST_CHILD" c os k w1]
    have "step_loop_fuel c os (Suc (Suc k))
            (ca_encoder_enter_state e2 CA_ENCODER_POST_CHILD) w1 \<noteq> None"
      by auto
    with Some True sr lc show ?thesis
      by (subst step_loop_fuel.simps(2))
         (simp del: not_None_eq step_loop_fuel.simps step_directory_fuel.simps step_fuel.simps)
  next
    case False
    show ?thesis
    proof (cases "S_ISDIR (st_mode (stat n))")
      case True
      from directory_flat [of e c os "Suc k" n w] assms
      obtain r e' w' where "step_directory_fuel c os (Suc (Suc k)) e n w = Some (r, e', w')"
        "r \<noteq> Inr CA_ENCODER_FINISHED" by blast
      with Some False True show ?thesis by simp
    next
      case nd: False
      with Some False show ?thesis by simp
    qed
  qed
qed

lemma step_init:
  assumes "state e = CA_ENCODER_INIT"
  shows "step_fuel c os (Suc (Suc (Suc (Suc k)))) e w \<noteq> None"
  using assms loop_init [of "consume_step_size e" c os k w]
  by (subst step_fuel.simps(2))
     (simp del: not_None_eq step_loop_fuel.simps step_directory_fuel.simps step_fuel.simps)

lemma directory_any:
  "step_directory_fuel c os (Suc (Suc (Suc (Suc (Suc k))))) e n w \<noteq> None"
proof (cases "S_ISDIR (st_mode (stat n))")
  case False
  then show ?thesis by simp
next
  case True
  obtain rd n1 w1 where rd: "ca_encoder_node_read_dirents os n w = (rd, n1, w1)"
    by (cases "ca_encoder_node_read_dirents os n w") auto
  show ?thesis
  proof (cases rd)
    case (Inl err)
    with True rd show ?thesis by simp
  next
    case (Inr x)
    have enter: "step_fuel c os (Suc (Suc (Suc (Suc k)))) (ca_encoder_enter_state e2 CA_ENCODER_INIT) w1
                   \<noteq> None" for e2
      by (rule step_init) simp
    show ?thesis
      using True rd Inr enter
      by (subst step_directory_fuel.simps(2))
         (simp del: not_None_eq step_loop_fuel.simps step_directory_fuel.simps step_fuel.simps
            add: Let_def
            split: CaEncoderState.splits option.splits prod.splits sum.splits)
  qed
qed

lemma loop_any:
  "step_loop_fuel c os (Suc (Suc (Suc (Suc (Suc (Suc k)))))) e w \<noteq> None"
proof (cases "ca_encoder_current_node e")
  case None
  then show ?thesis by simp
next
  case (Some n)
  let ?first = "if S_ISREG (st_mode (stat n)) \<or> S_ISBLK (st_mode (stat n))
                 then Some (ca_encoder_step_regular os e n w)
                 else if S_ISDIR (st_mode (stat n))
                 then step_directory_fuel c os (Suc (Suc (Suc (Suc (Suc k))))) e n w
                 else Some (Inl ENOTTY, e, w)"
  have "?first \<noteq> None" using directory_any [of c os k e n w]
    by (simp del: not_None_eq step_loop_fuel.simps step_directory_fuel.simps step_fuel.simps)
  then obtain r1 e1 w1 where first: "?first = Some (r1, e1, w1)" by auto
  obtain r' e2 where lc: "ca_encoder_leave_child e1 = (r', e2)"
    by (cases "ca_encoder_leave_child e1") auto
  from loop_post_child [of "ca_encoder_enter_state e2 CA_ENCODER_POST_CHILD" c os "Suc (Suc (Suc k))" w1]
  have "step_loop_fuel c os (Suc (Suc (Suc (Suc (Suc k)))))
                      (ca_encoder_enter_state e2 CA_ENCODER_POST_CHILD) w1 \<noteq> None"
    by auto
  with Some first lc show ?thesis
    by (subst step_loop_fuel.simps(2))
       (simp del: not_None_eq step_loop_fuel.simps step_directory_fuel.simps step_fuel.simps)
qed

lemma step_any: "step_fuel c os (Suc (Suc (Suc (Suc (Suc (Suc (Suc k))))))) e w \<noteq> None"
  using loop_any [of c os k "consume_step_size e" w]
  by (subst step_fuel.simps(2))
     (simp del: not_None_eq step_loop_fuel.simps step_directory_fuel.simps step_fuel.simps)

lemma step_fuel_enough: "\<exists>x. step_fuel c os 7 e w = Some x"
proof -
  have "(7 :: nat) = Suc (Suc (Suc (Suc (Suc (Suc (Suc 0))))))" by simp
  then have "step_fuel c os 7 e w \<noteq> None" by (simp only: step_any not_False_eq_True)
  then show ?thesis by blast
qed

lemma ca_encoder_step_eq:
  "ca_encoder_step c os e w = x \<longleftrightarrow> step_fuel c os 7 e w = Some x"
  using step_fuel_enough [of c os e w] by (auto simp add: ca_encoder_step_def)

text \<open>More fuel does not change a result.\<close>

lemma fuel_mono_all:
  "(\<forall>e w x. step_fuel c os k e w = Some x \<longrightarrow> step_fuel c os (Suc k) e w = Some x)
   \<and> (\<forall>e w x. step_loop_fuel c os k e w = Some x \<longrightarrow> step_loop_fuel c os (Suc k) e w = Some x)
   \<and> (\<forall>e n w x. step_directory_fuel c os k e n w = Some x
         \<longrightarrow> step_directory_fuel c os (Suc k) e n w = Some x)"
proof (induction k)
  case 0
  show ?case by simp
next
  case (Suc k)
  note simps_del = step_loop_fuel.simps(2) step_directory_fuel.simps(2) step_fuel.simps(2)
  from Suc.IH have
    ih_step: "\<And>e w x. step_fuel c os k e w = Some x \<Longrightarrow> step_fuel c os (Suc k) e w = Some x" and
    ih_loop: "\<And>e w x. step_loop_fuel c os k e w = Some x \<Longrightarrow> step_loop_fuel c os (Suc k) e w = Some x" and
    ih_dir: "\<And>e n w x. step_directory_fuel c os k e n w = Some x
                \<Longrightarrow> step_directory_fuel c os (Suc k) e n w = Some x"
    by blast+
  have step: "step_fuel c os (Suc (Suc k)) e w = Some x"
    if a: "step_fuel c os (Suc k) e w = Some x" for e w x
  proof (cases "state e = CA_ENCODER_EOF")
    case True
    with a show ?thesis by simp
  next
    case False
    with a have "step_loop_fuel c os k (consume_step_size e) w = Some x" by simp
    then have "step_loop_fuel c os (Suc k) (consume_step_size e) w = Some x" by (rule ih_loop)
    with False show ?thesis
      by (subst step_fuel.simps(2)) (simp del: simps_del)
  qed
  have dir: "step_directory_fuel c os (Suc (Suc k)) e n w = Some x"
    if a: "step_directory_fuel c os (Suc k) e n w = Some x" for e n w x
    using a
    apply (subst step_directory_fuel.simps(2))
    apply (subst (asm) step_directory_fuel.simps(2))
    apply (simp del: simps_del add: Let_def
        split: if_splits CaEncoderState.splits option.splits prod.splits sum.splits)
    apply (auto simp del: simps_del dest: ih_step)
    done
  have loop: "step_loop_fuel c os (Suc (Suc k)) e w = Some x"
    if a: "step_loop_fuel c os (Suc k) e w = Some x" for e w x
  proof (cases "ca_encoder_current_node e")
    case None
    with a show ?thesis by simp
  next
    case (Some n)
    let ?first = "\<lambda>j. if S_ISREG (st_mode (stat n)) \<or> S_ISBLK (st_mode (stat n))
                 then Some (ca_encoder_step_regular os e n w)
                 else if S_ISDIR (st_mode (stat n)) then step_directory_fuel c os j e n w
                 else Some (Inl ENOTTY, e, w)"
    from a Some obtain r1 e1 w1 where first: "?first k = Some (r1, e1, w1)"
      by (cases "?first k") auto
    then have first': "?first (Suc k) = Some (r1, e1, w1)"
      by (auto simp del: simps_del split: if_splits dest: ih_dir)
    obtain r' e2 where lc: "ca_encoder_leave_child e1 = (r', e2)"
      by (cases "ca_encoder_leave_child e1") auto
    show ?thesis
    proof (cases "r1 \<noteq> Inr CA_ENCODER_FINISHED \<or> r' = 0")
      case True
      with a Some first first' lc show ?thesis
        apply (subst step_loop_fuel.simps(2))
        apply (subst (asm) step_loop_fuel.simps(2))
        apply (auto simp del: simps_del split: if_splits)
        done
    next
      case False
      with a Some first lc
      have "step_loop_fuel c os k (ca_encoder_enter_state e2 CA_ENCODER_POST_CHILD) w1 = Some x"
        by (subst (asm) step_loop_fuel.simps(2)) (simp del: simps_del)
      then have "step_loop_fuel c os (Suc k) (ca_encoder_enter_state e2 CA_ENCODER_POST_CHILD) w1
                   = Some x" by (rule ih_loop)
      with False Some first' lc show ?thesis
        by (subst step_loop_fuel.simps(2)) (simp del: simps_del)
    qed
  qed
  from step loop dir show ?case by blast
qed

lemma step_fuel_more:
  "step_fuel c os k e w = Some x \<Longrightarrow> step_fuel c os (k + j) e w = Some x"
proof (induction j)
  case 0
  then show ?case by simp
next
  case (Suc j)
  then have "step_fuel c os (k + j) e w = Some x" by simp
  then have "step_fuel c os (Suc (k + j)) e w = Some x" using fuel_mono_all [of c os "k + j"] by blast
  then show ?case by (simp del: step_fuel.simps)
qed

lemma step_fuel_beyond: "step_fuel c os (7 + j) e w = Some (ca_encoder_step c os e w)"
proof -
  have "step_fuel c os 7 e w = Some (ca_encoder_step c os e w)"
    by (simp only: ca_encoder_step_eq [symmetric])
  then show ?thesis by (rule step_fuel_more)
qed

subsection \<open>Offsets\<close>

lemma ca_encoder_step_offsets:
  assumes "ca_encoder_step c os e w = (r, e', w')"
  shows "if state e = CA_ENCODER_EOF then r = Inr CA_ENCODER_FINISHED \<and> e' = e
         else offsets_kept (consume_step_size e) e'"
proof -
  from assms have run: "step_fuel c os 7 e w = Some (r, e', w')" by (simp only: ca_encoder_step_eq)
  show ?thesis
  proof (cases "state e = CA_ENCODER_EOF")
    case True
    have "step_fuel c os (Suc 6) e w = Some (Inr CA_ENCODER_FINISHED, e, w)"
      using True by (simp only: step_fuel.simps(2) simp_thms if_True)
    moreover have "Suc 6 = 7" by simp
    ultimately have "step_fuel c os 7 e w = Some (Inr CA_ENCODER_FINISHED, e, w)" by simp
    with run True show ?thesis by simp
  next
    case False
    with run step_fuel_offsets [of e c os 7 w r e' w'] show ?thesis by simp
  qed
qed

text \<open>What \<^verbatim>\<open>ca_encoder_get_data\<close> leaves alone, and what it sets.\<close>

lemma get_payload_data_fields:
  "state (fst (snd (ca_encoder_get_payload_data c os e n w))) = state e
   \<and> archive_offset (fst (snd (ca_encoder_get_payload_data c os e n w))) = archive_offset e
   \<and> payload_offset (fst (snd (ca_encoder_get_payload_data c os e n w))) = payload_offset e"
  by (simp add: ca_encoder_get_payload_data_def set_current_node_def Let_def
      split: prod.splits sum.splits bool.splits)

lemma get_hello_data_fields:
  "state (fst (snd (ca_encoder_get_hello_data c os e w))) = state e
   \<and> archive_offset (fst (snd (ca_encoder_get_hello_data c os e w))) = archive_offset e
   \<and> payload_offset (fst (snd (ca_encoder_get_hello_data c os e w))) = payload_offset e"
  by (simp add: ca_encoder_get_hello_data_def split: prod.splits bool.splits)

lemma get_entry_data_fields:
  "state (fst (snd (ca_encoder_get_entry_data c os e n w))) = state e
   \<and> archive_offset (fst (snd (ca_encoder_get_entry_data c os e n w))) = archive_offset e
   \<and> payload_offset (fst (snd (ca_encoder_get_entry_data c os e n w))) = payload_offset e"
  by (simp add: ca_encoder_get_entry_data_def split: option.splits prod.splits bool.splits)

lemma get_goodbye_data_fields:
  "state (fst (snd (ca_encoder_get_goodbye_data c os e w))) = state e
   \<and> archive_offset (fst (snd (ca_encoder_get_goodbye_data c os e w))) = archive_offset e
   \<and> payload_offset (fst (snd (ca_encoder_get_goodbye_data c os e w))) = payload_offset e"
  by (simp add: ca_encoder_get_goodbye_data_def Let_def split: prod.splits bool.splits)

lemma get_data_fields:
  "state (fst (snd (ca_encoder_get_data c os e w))) = state e
   \<and> archive_offset (fst (snd (ca_encoder_get_data c os e w))) = archive_offset e
   \<and> payload_offset (fst (snd (ca_encoder_get_data c os e w))) = payload_offset e"
proof (cases "ca_encoder_current_node e")
  case None
  then show ?thesis by (simp add: ca_encoder_get_data_def)
next
  case (Some n)
  let ?b = "if S_ISREG (st_mode (stat n)) \<or> S_ISBLK (st_mode (stat n))
                 then (if state e \<noteq> CA_ENCODER_INIT then (Inl ENOTTY, e, w)
                       else ca_encoder_get_payload_data c os e n w)
                 else if S_ISDIR (st_mode (stat n))
                 then (case state e of
                         CA_ENCODER_HELLO \<Rightarrow> ca_encoder_get_hello_data c os e w
                       | CA_ENCODER_ENTRY \<Rightarrow> ca_encoder_get_entry_data c os e n w
                       | CA_ENCODER_GOODBYE \<Rightarrow> ca_encoder_get_goodbye_data c os e w
                       | _ \<Rightarrow> (Inl ENOTTY, e, w))
                 else (Inl ENOTTY, e, w)"
  have b: "state (fst (snd ?b)) = state e \<and> archive_offset (fst (snd ?b)) = archive_offset e
           \<and> payload_offset (fst (snd ?b)) = payload_offset e"
    using get_payload_data_fields [of c os e n w] get_hello_data_fields [of c os e w]
      get_entry_data_fields [of c os e n w] get_goodbye_data_fields [of c os e w]
    by (simp split: CaEncoderState.splits)
  obtain rb eb wb where eq: "?b = (rb, eb, wb)" by (cases ?b) auto
  with b have "state eb = state e \<and> archive_offset eb = archive_offset e
               \<and> payload_offset eb = payload_offset e" by simp
  with Some eq show ?thesis
    by (simp add: ca_encoder_get_data_def split: sum.splits)
qed

lemma get_data_step_size:
  assumes "ca_encoder_get_data c os e w = (Inr d, e', w')"
  shows "step_size e' = of_nat (snd (snd d))"
  using assms
  by (auto simp add: ca_encoder_get_data_def split: option.splits prod.splits sum.splits if_splits)

lemma get_data_not_eof:
  assumes "ca_encoder_get_data c os e w = (Inr d, e', w')"
  shows "state e \<noteq> CA_ENCODER_EOF"
  using assms
  by (auto simp add: ca_encoder_get_data_def
      split: option.splits prod.splits sum.splits if_splits CaEncoderState.splits)

lemma pull_total:
  "pull c os k e0 w0 = Some (ds, e, w) \<Longrightarrow>
     archive_offset e + step_size e
       = archive_offset e0 + step_size e0 + of_nat (sum_list (chunk_sizes ds))
     \<and> (0 < k \<longrightarrow> state e \<noteq> CA_ENCODER_EOF)
     \<and> (k = 0 \<longrightarrow> e = e0)"
proof (induction k arbitrary: e0 w0 ds)
  case 0
  then show ?case by (simp add: chunk_sizes_def)
next
  case (Suc k)
  obtain r1 e1 w1 where st: "ca_encoder_step c os e0 w0 = (r1, e1, w1)"
    by (cases "ca_encoder_step c os e0 w0") auto
  obtain r2 e2 w2 where gd: "ca_encoder_get_data c os e1 w1 = (r2, e2, w2)"
    by (cases "ca_encoder_get_data c os e1 w1") auto
  from Suc.prems st gd obtain x d ds' where
    r1: "r1 = Inr x" and r2: "r2 = Inr d" and
    rest: "pull c os k e2 w2 = Some (ds', e, w)" and ds: "ds = d # ds'"
    by (auto split: sum.splits option.splits)
  from gd r2 have ne1: "state e1 \<noteq> CA_ENCODER_EOF" by (simp add: get_data_not_eof)
  have f2: "state e2 = state e1" "archive_offset e2 = archive_offset e1"
    using get_data_fields [of c os e1 w1] gd by simp_all
  have s2: "step_size e2 = of_nat (snd (snd d))" using gd r2 by (simp add: get_data_step_size)
  have ne0: "state e0 \<noteq> CA_ENCODER_EOF"
  proof
    assume "state e0 = CA_ENCODER_EOF"
    with ca_encoder_step_offsets [OF st] have "e1 = e0" by simp
    with ne1 \<open>state e0 = CA_ENCODER_EOF\<close> show False by simp
  qed
  with ca_encoder_step_offsets [OF st] have "offsets_kept (consume_step_size e0) e1" by simp
  then have a1: "archive_offset e1 = archive_offset e0 + step_size e0"
    by (simp add: offsets_kept_def consume_step_size_def)
  from Suc.IH [OF rest]
  have ih: "archive_offset e + step_size e
       = archive_offset e2 + step_size e2 + of_nat (sum_list (chunk_sizes ds'))"
    "0 < k \<longrightarrow> state e \<noteq> CA_ENCODER_EOF" "k = 0 \<longrightarrow> e = e2" by simp_all
  have "state e \<noteq> CA_ENCODER_EOF" using ih(2,3) ne1 f2(1) by (cases k) auto
  moreover have "archive_offset e + step_size e
       = archive_offset e0 + step_size e0 + of_nat (sum_list (chunk_sizes ds))"
    using ih(1) f2(2) s2 a1 ds by (simp add: chunk_sizes_def)
  ultimately show ?case by simp
qed

text \<open>
  Claim C9 says that after every sequence of successful step and get_data calls the
  archive offset is the sum of the lengths of the chunks that get_data handed back. On
  the empty directory the calls step, get_data, get_data, step all succeed; both calls
  of get_data hand back the 32 bytes of the HELLO record, 64 bytes in all, and the
  archive offset after the second step is 32.
\<close>

theorem archive_offset_after_repeated_get_data:
  "ca_encoder_current_archive_offset (fst empty_root) = 0
   \<and> fst (ca_encoder_step test_format (test_os dots dir_stat) (fst empty_root) (snd empty_root))
       = Inr CA_ENCODER_DATA
   \<and> fst (ca_encoder_get_data test_format (test_os dots dir_stat)
            (fst empty_hello) (snd empty_hello))
       = Inr (1, Some (buffer (fst empty_hello_read)), 32)
   \<and> fst (ca_encoder_get_data test_format (test_os dots dir_stat)
            (fst empty_hello_read) (snd empty_hello_read))
       = Inr (1, Some (buffer (fst empty_hello_read_twice)), 32)
   \<and> fst (ca_encoder_step test_format (test_os dots dir_stat)
            (fst empty_hello_read_twice) (snd empty_hello_read_twice))
       = Inr CA_ENCODER_DATA
   \<and> ca_encoder_current_archive_offset
        (fst (snd (ca_encoder_step test_format (test_os dots dir_stat)
                     (fst empty_hello_read_twice) (snd empty_hello_read_twice)))) = 32"
  by code_simp

text \<open>
  Claim C9, amended (archive_offset_is_sum_of_chunks): the consumer starts with nothing
  waiting to be counted, runs \<open>k\<close> rounds, each of them one successful step followed by
  exactly one successful get_data, and takes one more successful step. The archive
  offset then is the offset at the start plus the sum of the sizes that get_data handed
  back, in 64-bit arithmetic; as long as that sum stays within 64 bits it is the sum as
  a number, and the offset has not decreased. Operation by operation, from any encoder
  \<open>e1\<close>: a step adds the waiting \<^verbatim>\<open>step_size\<close> to the archive offset (nothing at the
  end of the stream), whatever it returns, and get_data, set_feature_flags and
  set_base_fd leave the archive offset as it was.
\<close>

theorem archive_offset_is_sum_of_chunks:
  assumes "step_size e0 = 0"
    and "pull_then_step c os k e0 w0 = Some (ds, Inr r, e', w')"
  shows "ca_encoder_current_archive_offset e'
           = ca_encoder_current_archive_offset e0 + of_nat (sum_list (chunk_sizes ds))
         \<and> (unat (ca_encoder_current_archive_offset e0) + sum_list (chunk_sizes ds) < 2 ^ 64 \<longrightarrow>
              unat (ca_encoder_current_archive_offset e')
                = unat (ca_encoder_current_archive_offset e0) + sum_list (chunk_sizes ds)
              \<and> ca_encoder_current_archive_offset e0 \<le> ca_encoder_current_archive_offset e')
         \<and> ca_encoder_current_archive_offset (fst (snd (ca_encoder_step c os e1 w1)))
             = ca_encoder_current_archive_offset e1
               + (if state e1 = CA_ENCODER_EOF then 0 else step_size e1)
         \<and> ca_encoder_current_archive_offset (fst (snd (ca_encoder_get_data c os e1 w1)))
             = ca_encoder_current_archive_offset e1
         \<and> ca_encoder_current_archive_offset (snd (ca_encoder_set_feature_flags c e1 flags))
             = ca_encoder_current_archive_offset e1
         \<and> ca_encoder_current_archive_offset (fst (snd (ca_encoder_set_base_fd os e1 fdv w1)))
             = ca_encoder_current_archive_offset e1"
proof -
  have one: "archive_offset (fst (snd (ca_encoder_step c os e1 w1)))
               = archive_offset e1 + (if state e1 = CA_ENCODER_EOF then 0 else step_size e1)"
  proof -
    obtain r2 e2 w2 where s1: "ca_encoder_step c os e1 w1 = (r2, e2, w2)"
      by (cases "ca_encoder_step c os e1 w1") auto
    show ?thesis
    proof (cases "state e1 = CA_ENCODER_EOF")
      case True
      with ca_encoder_step_offsets [OF s1] have "e2 = e1" by simp
      with s1 True show ?thesis by simp
    next
      case False
      with ca_encoder_step_offsets [OF s1] have "offsets_kept (consume_step_size e1) e2" by simp
      then have "archive_offset e2 = archive_offset e1 + step_size e1"
        by (simp add: offsets_kept_def consume_step_size_def)
      with s1 False show ?thesis by simp
    qed
  qed
  have gd1: "archive_offset (fst (snd (ca_encoder_get_data c os e1 w1))) = archive_offset e1"
    using get_data_fields [of c os e1 w1] by simp
  have ff1: "archive_offset (snd (ca_encoder_set_feature_flags c e1 flags)) = archive_offset e1"
    by (simp add: ca_encoder_set_feature_flags_def Let_def split: prod.splits)
  have bf1: "archive_offset (fst (snd (ca_encoder_set_base_fd os e1 fdv w1))) = archive_offset e1"
    by (simp add: ca_encoder_set_base_fd_def Let_def split: prod.splits sum.splits)
  from assms(2) obtain e w where p: "pull c os k e0 w0 = Some (ds, e, w)"
    and st: "ca_encoder_step c os e w = (Inr r, e', w')"
    by (auto simp add: pull_then_step_def split: option.splits)
  note t = pull_total [OF p]
  have eq: "archive_offset e' = archive_offset e0 + of_nat (sum_list (chunk_sizes ds))"
  proof (cases "state e = CA_ENCODER_EOF")
    case True
    with t have k0: "k = 0" by auto
    with p have "ds = []" by simp
    moreover from True ca_encoder_step_offsets [OF st] have "e' = e" by simp
    moreover from t k0 have "e = e0" by simp
    ultimately show ?thesis by (simp add: chunk_sizes_def)
  next
    case False
    with ca_encoder_step_offsets [OF st] have "offsets_kept (consume_step_size e) e'" by simp
    then have "archive_offset e' = archive_offset e + step_size e"
      by (simp add: offsets_kept_def consume_step_size_def)
    with t assms(1) show ?thesis by simp
  qed
  have mono: "unat (archive_offset e') = unat (archive_offset e0) + sum_list (chunk_sizes ds)
              \<and> archive_offset e0 \<le> archive_offset e'"
    if b: "unat (archive_offset e0) + sum_list (chunk_sizes ds) < 2 ^ 64"
  proof -
    from b have s: "sum_list (chunk_sizes ds) < 2 ^ 64" by simp
    then have u: "unat (of_nat (sum_list (chunk_sizes ds)) :: u64) = sum_list (chunk_sizes ds)"
      by (simp add: unat_of_nat)
    with b have "unat (archive_offset e0) + unat (of_nat (sum_list (chunk_sizes ds)) :: u64)
                   < 2 ^ LENGTH(64)" by simp
    then have "unat (archive_offset e0 + of_nat (sum_list (chunk_sizes ds)))
                 = unat (archive_offset e0) + unat (of_nat (sum_list (chunk_sizes ds)) :: u64)"
      by (simp only: unat_add_lem)
    with u eq have v: "unat (archive_offset e')
                        = unat (archive_offset e0) + sum_list (chunk_sizes ds)" by simp
    then have "unat (archive_offset e0) \<le> unat (archive_offset e')" by simp
    then have "archive_offset e0 \<le> archive_offset e'" by (simp add: word_le_nat_alt)
    with v show ?thesis by simp
  qed
  from eq mono
  have run: "archive_offset e' = archive_offset e0 + of_nat (sum_list (chunk_sizes ds))
             \<and> (unat (archive_offset e0) + sum_list (chunk_sizes ds) < 2 ^ 64 \<longrightarrow>
                  unat (archive_offset e')
                    = unat (archive_offset e0) + sum_list (chunk_sizes ds)
                  \<and> archive_offset e0 \<le> archive_offset e')"
    by simp
  show ?thesis
    unfolding ca_encoder_current_archive_offset_def
    by (intro conjI) (rule run [THEN conjunct1], rule run [THEN conjunct2],
        rule one, rule gd1, rule ff1, rule bf1)
qed

theorem archive_offset_is_sum_of_chunks_witness:
  "ca_encoder_current_archive_offset
     (fst (snd (snd (the (pull_then_step test_format (test_os (dots @ [child_entry]) link_stat) 3
        (fst (at_base 0xF46 link_stat)) (snd (at_base 0xF46 link_stat))))))) = 129
   \<and> unat (ca_encoder_current_archive_offset
     (fst (snd (snd (the (pull_then_step test_format (test_os (dots @ [child_entry]) link_stat) 3
        (fst (at_base 0xF46 link_stat)) (snd (at_base 0xF46 link_stat)))))))) = 129
   \<and> ca_encoder_current_archive_offset (fst (at_base 0xF46 link_stat))
       \<le> ca_encoder_current_archive_offset
     (fst (snd (snd (the (pull_then_step test_format (test_os (dots @ [child_entry]) link_stat) 3
        (fst (at_base 0xF46 link_stat)) (snd (at_base 0xF46 link_stat)))))))
   \<and> ca_encoder_current_archive_offset
       (fst (snd (ca_encoder_step test_format (test_os (dots @ [child_entry]) link_stat)
          (fst (at_base 0xF46 link_stat)) (snd (at_base 0xF46 link_stat))))) = 0"
proof -
  let ?os = "test_os (dots @ [child_entry]) link_stat"
  let ?e0 = "fst (at_base 0xF46 link_stat)"
  let ?w0 = "snd (at_base 0xF46 link_stat)"
  let ?X = "the (pull_then_step test_format ?os 3 ?e0 ?w0)"
  have h1: "step_size ?e0 = 0" by code_simp
  have h2: "pull_then_step test_format ?os 3 ?e0 ?w0
              = Some (fst ?X, Inr CA_ENCODER_FINISHED, fst (snd (snd ?X)), snd (snd (snd ?X)))"
    by code_simp
  have a0: "ca_encoder_current_archive_offset ?e0 = 0" by code_simp
  have sum: "sum_list (chunk_sizes (fst ?X)) = 129" by code_simp
  have bound: "unat (ca_encoder_current_archive_offset ?e0) + sum_list (chunk_sizes (fst ?X)) < 2 ^ 64"
    unfolding a0 sum by simp
  have ne: "state ?e0 \<noteq> CA_ENCODER_EOF" by code_simp
  note t = archive_offset_is_sum_of_chunks
             [OF h1 h2, where ?e1.0 = ?e0 and ?w1.0 = ?w0 and flags = 0 and fdv = 0]
  from t bound
  have "ca_encoder_current_archive_offset (fst (snd (snd ?X)))
           = ca_encoder_current_archive_offset ?e0 + of_nat (sum_list (chunk_sizes (fst ?X)))"
    and "unat (ca_encoder_current_archive_offset (fst (snd (snd ?X))))
                = unat (ca_encoder_current_archive_offset ?e0) + sum_list (chunk_sizes (fst ?X))"
    and "ca_encoder_current_archive_offset ?e0 \<le> ca_encoder_current_archive_offset (fst (snd (snd ?X)))"
    by blast+
  moreover from t ne h1
  have "ca_encoder_current_archive_offset (fst (snd (ca_encoder_step test_format ?os ?e0 ?w0)))
          = ca_encoder_current_archive_offset ?e0" by simp
  ultimately show ?thesis unfolding a0 sum by simp
qed

text \<open>
  Claim get_data_at_end_of_payload: the current node is a regular file or a block device, the state is
  \<^verbatim>\<open>CA_ENCODER_INIT\<close>, the payload size is known to be \<open>sz\<close> and the payload offset
  has reached it. Then get_data returns 0 with a null pointer and size 0 and leaves
  \<^verbatim>\<open>step_size\<close> at 0, and after the next step the archive offset is what it was, and
  the payload offset is what it was or has been reset to 0.
\<close>

theorem get_data_at_end_of_payload:
  assumes cur: "ca_encoder_current_node e = Some n"
    and kind: "S_ISREG (st_mode (stat n)) \<or> S_ISBLK (st_mode (stat n))"
    and init: "state e = CA_ENCODER_INIT"
    and size: "ca_encoder_node_get_payload_size os n w = (Inr sz, n', w1)"
    and eof: "sz \<le> payload_offset e"
  shows "ca_encoder_get_data c os e w
           = (Inr (0, None, 0), (set_current_node e n')\<lparr>step_size := 0\<rparr>, w1)
         \<and> archive_offset (fst (snd (ca_encoder_step c os ((set_current_node e n')\<lparr>step_size := 0\<rparr>) w1)))
             = archive_offset e
         \<and> (payload_offset (fst (snd (ca_encoder_step c os ((set_current_node e n')\<lparr>step_size := 0\<rparr>) w1)))
               = payload_offset e
            \<or> payload_offset (fst (snd (ca_encoder_step c os ((set_current_node e n')\<lparr>step_size := 0\<rparr>) w1)))
               = 0)"
proof -
  let ?e1 = "(set_current_node e n')\<lparr>step_size := 0\<rparr>"
  have pd: "ca_encoder_get_payload_data c os e n w = (Inr 0, set_current_node e n', w1)"
    using size eof by (simp add: ca_encoder_get_payload_data_def set_current_node_def)
  have gd: "ca_encoder_get_data c os e w = (Inr (0, None, 0), ?e1, w1)"
    using cur kind init pd by (simp add: ca_encoder_get_data_def)
  obtain r2 e2 w2 where st: "ca_encoder_step c os ?e1 w1 = (r2, e2, w2)"
    by (cases "ca_encoder_step c os ?e1 w1") auto
  have "state ?e1 \<noteq> CA_ENCODER_EOF" using init by (simp add: set_current_node_def)
  with ca_encoder_step_offsets [OF st] have "offsets_kept (consume_step_size ?e1) e2" by simp
  then have "archive_offset e2 = archive_offset e
             \<and> (payload_offset e2 = payload_offset e \<or> payload_offset e2 = 0)"
    by (auto simp add: offsets_kept_def consume_step_size_def set_current_node_def)
  with gd st show ?thesis by simp
qed

theorem get_data_at_end_of_payload_witness:
  "ca_encoder_get_data test_format empty_file_os (fst empty_file_root) (snd empty_file_root)
     = (Inr (0, None, 0),
        (set_current_node (fst empty_file_root) (nodes (fst empty_file_root) ! 0))\<lparr>step_size := 0\<rparr>,
        snd empty_file_root)
   \<and> archive_offset (fst (snd (ca_encoder_step test_format empty_file_os
        ((set_current_node (fst empty_file_root) (nodes (fst empty_file_root) ! 0))\<lparr>step_size := 0\<rparr>)
        (snd empty_file_root))))
      = archive_offset (fst empty_file_root)
   \<and> (payload_offset (fst (snd (ca_encoder_step test_format empty_file_os
        ((set_current_node (fst empty_file_root) (nodes (fst empty_file_root) ! 0))\<lparr>step_size := 0\<rparr>)
        (snd empty_file_root))))
      = payload_offset (fst empty_file_root)
     \<or> payload_offset (fst (snd (ca_encoder_step test_format empty_file_os
        ((set_current_node (fst empty_file_root) (nodes (fst empty_file_root) ! 0))\<lparr>step_size := 0\<rparr>)
        (snd empty_file_root))))
      = 0)"
proof -
  let ?e = "fst empty_file_root"
  let ?w = "snd empty_file_root"
  let ?n = "nodes ?e ! 0"
  have cur: "ca_encoder_current_node ?e = Some ?n" by code_simp
  have kind: "S_ISREG (st_mode (stat ?n)) \<or> S_ISBLK (st_mode (stat ?n))" by code_simp
  have init: "state ?e = CA_ENCODER_INIT" by code_simp
  have size: "ca_encoder_node_get_payload_size empty_file_os ?n ?w = (Inr 0, ?n, ?w)" by code_simp
  have eof: "0 \<le> payload_offset ?e" by simp
  show ?thesis by (rule get_data_at_end_of_payload [OF cur kind init size eof])
qed

subsection \<open>The empty directory\<close>




lemma scandirat_nothing:
  assumes "fst (sys_readdir os f w) = Inr ds" "filter scandir_filter ds = []"
  shows "scandirat os f w = (Inr None, snd (sys_readdir os f w))"
  using assms by (cases "sys_readdir os f w") (simp add: scandirat_def)

lemma read_dirents_nothing:
  assumes "S_ISDIR (st_mode (stat n))" "0 \<le> fd n" "dirents n = None" "dirent_idx n = 0"
    "fst (sys_readdir os (fd n) w) = Inr ds" "filter scandir_filter ds = []"
  shows "ca_encoder_node_read_dirents os n w = (Inr 1, n, snd (sys_readdir os (fd n) w))"
  using assms(1-4) scandirat_nothing [OF assms(5,6)]
  by (simp add: ca_encoder_node_read_dirents_def)

lemma three_levels: "(7 :: nat) = Suc (Suc (Suc 4))"
  by simp

lemma step_empty_root:
  assumes root: "nodes e = [n]" "node_idx e = 0"
    and dir: "S_ISDIR (st_mode (stat n))" "0 \<le> fd n" "dirents n = None" "dirent_idx n = 0"
    and listing: "fst (sys_readdir os (fd n) w) = Inr ds" "filter scandir_filter ds = []"
  shows "state e = CA_ENCODER_INIT \<Longrightarrow>
           ca_encoder_step c os e w =
             (Inr CA_ENCODER_DATA, ca_encoder_enter_state (consume_step_size e) CA_ENCODER_HELLO,
              snd (sys_readdir os (fd n) w))"
    and "state e = CA_ENCODER_HELLO \<Longrightarrow>
           ca_encoder_step c os e w =
             (Inr CA_ENCODER_DATA, ca_encoder_enter_state (consume_step_size e) CA_ENCODER_GOODBYE,
              snd (sys_readdir os (fd n) w))"
    and "state e = CA_ENCODER_GOODBYE \<Longrightarrow>
           ca_encoder_step c os e w =
             (Inr CA_ENCODER_FINISHED, ca_encoder_enter_state (consume_step_size e) CA_ENCODER_EOF,
              snd (sys_readdir os (fd n) w))"
proof -
  let ?e = "consume_step_size e"
  have cur: "ca_encoder_current_node ?e = Some n"
    using root by (simp add: ca_encoder_current_node_def n_nodes_def consume_step_size_def)
  have same: "set_current_node ?e n = ?e"
    using root by (simp add: set_current_node_def consume_step_size_def)
  have rd: "ca_encoder_node_read_dirents os n w = (Inr 1, n, snd (sys_readdir os (fd n) w))"
    by (rule read_dirents_nothing [OF dir listing])
  have nd: "ca_encoder_node_current_dirent n = None"
    using dir by (simp add: ca_encoder_node_current_dirent_def)
  note np = dir_not_payload [OF dir(1)]
  have forget: "ca_encoder_forget_children os (ca_encoder_enter_state ?e CA_ENCODER_EOF) w'
                  = (Inr (), ca_encoder_enter_state ?e CA_ENCODER_EOF, w')" for w'
    using root
    by (subst ca_encoder_forget_children.simps)
       (simp add: n_nodes_def ca_encoder_enter_state_def consume_step_size_def)
  have leave: "ca_encoder_leave_child (ca_encoder_enter_state ?e CA_ENCODER_EOF)
                 = (0, ca_encoder_enter_state ?e CA_ENCODER_EOF)"
    using root
    by (simp add: ca_encoder_leave_child_def ca_encoder_enter_state_def consume_step_size_def)
  have i: "state e = CA_ENCODER_INIT \<Longrightarrow> step_fuel c os (Suc (Suc (Suc k))) e w =
             Some (Inr CA_ENCODER_DATA, ca_encoder_enter_state ?e CA_ENCODER_HELLO,
                   snd (sys_readdir os (fd n) w))" for k
    using cur same rd np dir(1) by simp
  have h: "state e = CA_ENCODER_HELLO \<Longrightarrow> step_fuel c os (Suc (Suc (Suc k))) e w =
             Some (Inr CA_ENCODER_DATA, ca_encoder_enter_state ?e CA_ENCODER_GOODBYE,
                   snd (sys_readdir os (fd n) w))" for k
    using cur same rd np dir(1) nd by (simp add: step_directory_hello_def)
  have g: "state e = CA_ENCODER_GOODBYE \<Longrightarrow> step_fuel c os (Suc (Suc (Suc k))) e w =
             Some (Inr CA_ENCODER_FINISHED, ca_encoder_enter_state ?e CA_ENCODER_EOF,
                   snd (sys_readdir os (fd n) w))" for k
    using cur same rd np dir(1) forget leave by simp
  show "state e = CA_ENCODER_INIT \<Longrightarrow>
           ca_encoder_step c os e w =
             (Inr CA_ENCODER_DATA, ca_encoder_enter_state (consume_step_size e) CA_ENCODER_HELLO,
              snd (sys_readdir os (fd n) w))"
    using i [of 4] by (simp only: ca_encoder_step_eq three_levels)
  show "state e = CA_ENCODER_HELLO \<Longrightarrow>
           ca_encoder_step c os e w =
             (Inr CA_ENCODER_DATA, ca_encoder_enter_state (consume_step_size e) CA_ENCODER_GOODBYE,
              snd (sys_readdir os (fd n) w))"
    using h [of 4] by (simp only: ca_encoder_step_eq three_levels)
  show "state e = CA_ENCODER_GOODBYE \<Longrightarrow>
           ca_encoder_step c os e w =
             (Inr CA_ENCODER_FINISHED, ca_encoder_enter_state (consume_step_size e) CA_ENCODER_EOF,
              snd (sys_readdir os (fd n) w))"
    using g [of 4] by (simp only: ca_encoder_step_eq three_levels)
qed

lemma get_data_hello:
  assumes "ca_encoder_current_node e = Some n" "S_ISDIR (st_mode (stat n))"
    "state e = CA_ENCODER_HELLO" "buffer e = []" "fst (sys_malloc os sizeof_CaFormatHello w)"
  shows "ca_encoder_get_data c os e w =
     (Inr (1, Some (CaFormatHeader (CA_FORMAT_HELLO c) (of_nat sizeof_CaFormatHello)
                     @ le64 (CA_FORMAT_HELLO_UUID_PART2 c) @ le64 (feature_flags e)), 32),
      e\<lparr>buffer := CaFormatHeader (CA_FORMAT_HELLO c) (of_nat sizeof_CaFormatHello)
                     @ le64 (CA_FORMAT_HELLO_UUID_PART2 c) @ le64 (feature_flags e),
        step_size := 32\<rparr>,
      snd (sys_malloc os sizeof_CaFormatHello w))"
  using assms dir_not_payload [OF assms(2)]
  by (cases "sys_malloc os sizeof_CaFormatHello w")
     (simp add: ca_encoder_get_data_def ca_encoder_get_hello_data_def realloc_buffer_acquire_def
        CaFormatHeader_def)

lemma get_data_goodbye:
  assumes "ca_encoder_current_node e = Some n" "S_ISDIR (st_mode (stat n))"
    "state e = CA_ENCODER_GOODBYE" "buffer e = []" "fst (sys_malloc os 24 w)"
  shows "ca_encoder_get_data c os e w =
     (Inr (1, Some (CaFormatHeader (CA_FORMAT_GOODBYE c) 24 @ le64 24), 24),
      e\<lparr>buffer := CaFormatHeader (CA_FORMAT_GOODBYE c) 24 @ le64 24, step_size := 24\<rparr>,
      snd (sys_malloc os 24 w))"
  using assms dir_not_payload [OF assms(2)]
  by (cases "sys_malloc os 24 w")
     (simp add: ca_encoder_get_data_def ca_encoder_get_goodbye_data_def realloc_buffer_acquire_def
        CaFormatHeader_def offsetof_CaFormatGoodbye_table_def sizeof_le64_t_def buffer_write_def)

lemma pull_Suc:
  "ca_encoder_step c os e w = (Inr r, e1, w1) \<Longrightarrow>
   ca_encoder_get_data c os e1 w1 = (Inr d, e2, w2) \<Longrightarrow>
   pull c os k e2 w2 = Some (ds, e3, w3) \<Longrightarrow>
   pull c os (Suc k) e w = Some (d # ds, e3, w3)"
  by simp

text \<open>
  Claim empty_directory_archive says that the archive of an empty directory is a HELLO record of 24 bytes and a
  GOODBYE record of 24 bytes, 48 bytes in all. The HELLO record has four 64-bit fields:
  the two chunks are 32 and 24 bytes long and the archive offset ends at 56.
\<close>

theorem empty_directory_archive_is_56_bytes:
  "pull_then_step test_format (test_os dots dir_stat) 2 (fst empty_root) (snd empty_root) \<noteq> None
   \<and> chunk_sizes (fst (the (pull_then_step test_format (test_os dots dir_stat) 2
                              (fst empty_root) (snd empty_root)))) = [32, 24]
   \<and> fst (snd (the (pull_then_step test_format (test_os dots dir_stat) 2
                              (fst empty_root) (snd empty_root)))) = Inr CA_ENCODER_FINISHED
   \<and> ca_encoder_current_archive_offset
        (fst (snd (snd (the (pull_then_step test_format (test_os dots dir_stat) 2
                              (fst empty_root) (snd empty_root)))))) = 56"
  by code_simp

text \<open>
  Claim empty_directory_archive, amended: for an encoder whose root is a directory with no entries (every
  listing of it holds nothing but "." and ".."), and with memory available, the consumer
  gets exactly two chunks, the HELLO record of 32 bytes (header, \<^verbatim>\<open>uuid_part2\<close>, feature
  flags) and the GOODBYE record of 24 bytes (header and one table entry holding 24); the
  step after them returns \<^verbatim>\<open>CA_ENCODER_FINISHED\<close> and the archive offset is 56.
\<close>

theorem empty_directory_archive:
  assumes fresh: "nodes e = []" "state e = CA_ENCODER_INIT" "buffer e = []"
      "archive_offset e = 0" "step_size e = 0" "node_idx e = 0"
    and base: "ca_encoder_set_base_fd os e fdv w0 = (Inr 0, e0, w1)"
    and dir: "S_ISDIR (st_mode (stat (hd (nodes e0))))"
    and listing: "\<And>w. \<exists>ds. fst (sys_readdir os fdv w) = Inr ds \<and> filter scandir_filter ds = []"
    and memory: "\<And>k w. fst (sys_malloc os k w)"
  shows "\<exists>e' w'. pull_then_step c os 2 e0 w1 =
            Some ([(1, Some (CaFormatHeader (CA_FORMAT_HELLO c) 32
                             @ le64 (CA_FORMAT_HELLO_UUID_PART2 c) @ le64 (feature_flags e)), 32),
                   (1, Some (CaFormatHeader (CA_FORMAT_GOODBYE c) 24 @ le64 24), 24)],
                  Inr CA_ENCODER_FINISHED, e', w')
           \<and> ca_encoder_current_archive_offset e' = 56 \<and> state e' = CA_ENCODER_EOF"
proof -
  let ?H = "CaFormatHeader (CA_FORMAT_HELLO c) 32
              @ le64 (CA_FORMAT_HELLO_UUID_PART2 c) @ le64 (feature_flags e)"
  let ?G = "CaFormatHeader (CA_FORMAT_GOODBYE c) 24 @ le64 24"
  from base fresh obtain st where
    e0: "e0 = e\<lparr>nodes := [\<lparr>fd = fdv, stat = st, dirents = None, dirent_idx = 0,
                                   symlink_target = None, device_size = UINT64_MAX\<rparr>]\<rparr>"
    and fdv: "0 \<le> fdv"
    by (auto simp add: ca_encoder_set_base_fd_def n_nodes_def
        split: if_splits prod.splits sum.splits)
  let ?n = "\<lparr>fd = fdv, stat = st, dirents = None, dirent_idx = 0,
              symlink_target = None, device_size = UINT64_MAX\<rparr>"
  have isdir: "S_ISDIR (st_mode (stat ?n))" using dir e0 by simp
  have nprops: "0 \<le> fd ?n" "dirents ?n = None" "dirent_idx ?n = 0" using fdv by simp_all
  have rd: "\<exists>ds. fst (sys_readdir os (fd ?n) w) = Inr ds \<and> filter scandir_filter ds = []" for w
    using listing [of w] by simp
  \<comment> \<open>first round\<close>
  let ?w2 = "snd (sys_readdir os fdv w1)"
  let ?e1 = "ca_encoder_enter_state (consume_step_size e0) CA_ENCODER_HELLO"
  from rd [of w1] obtain ds1 where l1: "fst (sys_readdir os (fd ?n) w1) = Inr ds1"
    "filter scandir_filter ds1 = []" by blast
  have s1: "ca_encoder_step c os e0 w1 = (Inr CA_ENCODER_DATA, ?e1, ?w2)"
    using step_empty_root(1) [OF _ _ isdir nprops l1, of e0 c] e0 fresh by simp
  have cur1: "ca_encoder_current_node ?e1 = Some ?n"
    using e0 fresh
    by (simp add: ca_encoder_current_node_def n_nodes_def ca_encoder_enter_state_def
        consume_step_size_def)
  let ?w3 = "snd (sys_malloc os sizeof_CaFormatHello ?w2)"
  let ?e2 = "?e1\<lparr>buffer := ?H, step_size := 32\<rparr>"
  have g1: "ca_encoder_get_data c os ?e1 ?w2 = (Inr (1, Some ?H, 32), ?e2, ?w3)"
    using get_data_hello [OF cur1 isdir _ _ memory, of c ?w2] e0
    by (simp add: ca_encoder_enter_state_def consume_step_size_def sizeof_CaFormatHello_def)
  \<comment> \<open>second round\<close>
  let ?w4 = "snd (sys_readdir os fdv ?w3)"
  let ?e3 = "ca_encoder_enter_state (consume_step_size ?e2) CA_ENCODER_GOODBYE"
  from rd [of ?w3] obtain ds2 where l2: "fst (sys_readdir os (fd ?n) ?w3) = Inr ds2"
    "filter scandir_filter ds2 = []" by blast
  have s2: "ca_encoder_step c os ?e2 ?w3 = (Inr CA_ENCODER_DATA, ?e3, ?w4)"
    using step_empty_root(2) [OF _ _ isdir nprops l2, of ?e2 c] e0 fresh
    by (simp add: ca_encoder_enter_state_def consume_step_size_def)
  have cur3: "ca_encoder_current_node ?e3 = Some ?n"
    using e0 fresh
    by (simp add: ca_encoder_current_node_def n_nodes_def ca_encoder_enter_state_def
        consume_step_size_def)
  let ?w5 = "snd (sys_malloc os 24 ?w4)"
  let ?e4 = "?e3\<lparr>buffer := ?G, step_size := 24\<rparr>"
  have g2: "ca_encoder_get_data c os ?e3 ?w4 = (Inr (1, Some ?G, 24), ?e4, ?w5)"
    using get_data_goodbye [OF cur3 isdir _ _ memory, of c ?w4]
    by (simp add: ca_encoder_enter_state_def consume_step_size_def)
  \<comment> \<open>the last step\<close>
  let ?w6 = "snd (sys_readdir os fdv ?w5)"
  let ?e5 = "ca_encoder_enter_state (consume_step_size ?e4) CA_ENCODER_EOF"
  from rd [of ?w5] obtain ds3 where l3: "fst (sys_readdir os (fd ?n) ?w5) = Inr ds3"
    "filter scandir_filter ds3 = []" by blast
  have s3: "ca_encoder_step c os ?e4 ?w5 = (Inr CA_ENCODER_FINISHED, ?e5, ?w6)"
    using step_empty_root(3) [OF _ _ isdir nprops l3, of ?e4 c] e0 fresh
    by (simp add: ca_encoder_enter_state_def consume_step_size_def)
  have p0: "pull c os 0 ?e4 ?w5 = Some ([], ?e4, ?w5)" by simp
  have p1: "pull c os (Suc 0) ?e2 ?w3 = Some ([(1, Some ?G, 24)], ?e4, ?w5)"
    by (rule pull_Suc [OF s2 g2 p0])
  have p2: "pull c os (Suc (Suc 0)) e0 w1 = Some ([(1, Some ?H, 32), (1, Some ?G, 24)], ?e4, ?w5)"
    by (rule pull_Suc [OF s1 g1 p1])
  have two: "(2 :: nat) = Suc (Suc 0)" by simp
  have run: "pull_then_step c os 2 e0 w1 =
     Some ([(1, Some ?H, 32), (1, Some ?G, 24)], Inr CA_ENCODER_FINISHED, ?e5, ?w6)"
    by (simp only: pull_then_step_def two p2 s3 option.case prod.case)
  have off: "ca_encoder_current_archive_offset ?e5 = 56"
    using e0 fresh
    by (simp add: ca_encoder_current_archive_offset_def ca_encoder_enter_state_def
        consume_step_size_def)
  have "state ?e5 = CA_ENCODER_EOF" by (simp add: ca_encoder_enter_state_def)
  with run off show ?thesis by blast
qed

theorem empty_directory_archive_witness:
  "\<exists>e' w'. pull_then_step test_format (test_os dots dir_stat) 2 (fst empty_root) (snd empty_root) =
            Some ([(1, Some (CaFormatHeader (CA_FORMAT_HELLO test_format) 32
                             @ le64 (CA_FORMAT_HELLO_UUID_PART2 test_format)
                             @ le64 (feature_flags (ca_encoder_new test_format))), 32),
                   (1, Some (CaFormatHeader (CA_FORMAT_GOODBYE test_format) 24 @ le64 24), 24)],
                  Inr CA_ENCODER_FINISHED, e', w')
           \<and> ca_encoder_current_archive_offset e' = 56 \<and> state e' = CA_ENCODER_EOF"
proof -
  let ?os = "test_os dots dir_stat"
  let ?e = "ca_encoder_new test_format"
  have f: "nodes ?e = []" "state ?e = CA_ENCODER_INIT" "buffer ?e = []"
      "archive_offset ?e = 0" "step_size ?e = 0" "node_idx ?e = 0"
    by (simp_all add: ca_encoder_new_def)
  have b: "ca_encoder_set_base_fd ?os ?e 3 [] = (Inr 0, fst empty_root, snd empty_root)"
    by code_simp
  have d: "S_ISDIR (st_mode (stat (hd (nodes (fst empty_root)))))" by code_simp
  have l: "\<exists>ds. fst (sys_readdir ?os 3 w) = Inr ds \<and> filter scandir_filter ds = []" for w
    by (simp add: test_os_def dots_def scandir_filter_def cchar_def strlen_def cstr_def)
  have m: "fst (sys_malloc ?os k w)" for k w
    by (simp add: test_os_def)
  show ?thesis by (rule empty_directory_archive [OF f b d l m])
qed

end
